theory Spec2Isabelle
  imports Main "HOL-Library.AList" "HOL-Library.Sublist"
begin

section \<open>Data model\<close>

text \<open>
  The crawler handles decoded JSON throughout: roster records, player details, page
  bodies and match records are Python dicts, lists and atoms. A dict is an association
  list (insertion ordered, as a Python dict is); Python's \<^verbatim>\<open>None\<close> is \<open>JNull\<close>.
\<close>

datatype jval =
    JNull
  | JBool bool
  | JInt int
  | JStr string
  | JList "jval list"
  | JObj "(string \<times> jval) list"

type_synonym obj = "(string \<times> jval) list"

text \<open>Truth value of a Python object, as \<^verbatim>\<open>if x:\<close> and \<^verbatim>\<open>x or 0\<close> test it.\<close>

fun truthy :: "jval \<Rightarrow> bool" where
  "truthy JNull = False"
| "truthy (JBool b) = b"
| "truthy (JInt n) = (n \<noteq> 0)"
| "truthy (JStr s) = (s \<noteq> [])"
| "truthy (JList xs) = (xs \<noteq> [])"
| "truthy (JObj kvs) = (kvs \<noteq> [])"

text \<open>
  Exceptions that arise inside the pipeline's \<^verbatim>\<open>try\<close> blocks or in a client call,
  and the errors that leave \<^verbatim>\<open>get_club_data\<close>: the \<^verbatim>\<open>RuntimeError\<close> of line 62,
  the \<^verbatim>\<open>KeyError\<close> of \<^verbatim>\<open>m["id"]\<close> in line 113, and an exception of the roster call
  itself, which no handler encloses.
\<close>

datatype exn = ClientExn string | AttributeError

datatype error = MembersUnavailable | KeyError string | Uncaught exn

text \<open>\<^verbatim>\<open>d.get(k)\<close> on a dict: the value, or \<^verbatim>\<open>None\<close>.\<close>

definition dict_get :: "obj \<Rightarrow> string \<Rightarrow> jval" where
  "dict_get d k = (case map_of d k of None \<Rightarrow> JNull | Some v \<Rightarrow> v)"

text \<open>\<^verbatim>\<open>d[k]\<close> on a dict: the value, or \<^verbatim>\<open>KeyError\<close>.\<close>

definition dict_item :: "obj \<Rightarrow> string \<Rightarrow> error + jval" where
  "dict_item d k = (case map_of d k of None \<Rightarrow> Inl (KeyError k) | Some v \<Rightarrow> Inr v)"

text \<open>
  \<^verbatim>\<open>x.get(k, default)\<close> on an arbitrary decoded value: only a dict has \<^verbatim>\<open>get\<close>,
  anything else raises \<^verbatim>\<open>AttributeError\<close>.
\<close>

fun get_default :: "jval \<Rightarrow> string \<Rightarrow> jval \<Rightarrow> exn + jval" where
  "get_default (JObj d) k dflt = Inr (case map_of d k of None \<Rightarrow> dflt | Some v \<Rightarrow> v)"
| "get_default _ k dflt = Inl AttributeError"

text \<open>
  \<^verbatim>\<open>xs[:k]\<close> with Python's slice semantics: a negative bound counts from the end.
\<close>

definition slice_upto :: "'a list \<Rightarrow> int \<Rightarrow> 'a list" where
  "slice_upto xs k = (if 0 \<le> k then take (nat k) xs else take (length xs - nat (- k)) xs)"

text \<open>\<^verbatim>\<open>k or 0\<close> on an integer.\<close>

definition or_zero :: "int \<Rightarrow> int" where
  "or_zero k = (if k \<noteq> 0 then k else 0)"

section \<open>The environment: client, clock, cancellation flag, log sink\<close>

text \<open>
  Every external call is a function of an explicit world state \<open>'w\<close> and returns the new
  one; a call that raises returns \<open>Inl\<close>. The client's methods are those the pipeline
  uses. \<open>py_str\<close> is Python's \<^verbatim>\<open>str\<close> on a decoded value, \<open>stop_event\<close> the optional
  \<^verbatim>\<open>threading.Event\<close> (polling it may observe a change made by another thread, so it
  is a function of the world too), \<open>sleep\<close> the clock.
\<close>

record response =
  status_code :: int
  json :: "exn + jval"

record 'w env =
  get_members_by_club :: "string \<Rightarrow> 'w \<Rightarrow> (exn + bool \<times> obj list) \<times> 'w"
  get_player :: "string \<Rightarrow> 'w \<Rightarrow> (exn + bool \<times> jval) \<times> 'w"
  dupr_post :: "string \<Rightarrow> jval \<Rightarrow> 'w \<Rightarrow> (exn + response) \<times> 'w"
  handle_paging :: "jval \<Rightarrow> 'w \<Rightarrow> (exn + int option \<times> jval list) \<times> 'w"
  login_user :: "'w \<Rightarrow> (exn + unit) \<times> 'w"
  stop_event :: "('w \<Rightarrow> bool \<times> 'w) option"
  sleep :: "nat \<Rightarrow> 'w \<Rightarrow> 'w"
  py_str :: "jval \<Rightarrow> string"

text \<open>The messages of the log sink, one constructor per \<^verbatim>\<open>_log\<close> call of the source.\<close>

datatype log_msg =
    LogStart string
  | LogFetchingMembers
  | LogFetchingProfiles
  | LogProfilesStopped
  | LogProcessingPlayer nat nat string
  | LogProfileError string exn
  | LogFetchingHistory
  | LogHistoryStopped
  | LogHistoryPlayer nat nat string
  | LogPagingStopped
  | LogHistoryStatus int
  | LogRefreshToken
  | LogNoMoreMatches
  | LogGotMatches nat
  | LogPagingError exn
  | LogNoHistory string

text \<open>
  The run records what it did: each client call, each sleep and each log message, in
  program order. The log sink is optional in the source (\<^verbatim>\<open>if log:\<close> in \<^verbatim>\<open>_log\<close>);
  without one the messages are dropped and nothing else changes, so the trace keeps
  them always.
\<close>

datatype event =
    Log log_msg
  | GetMembersByClub string
  | GetPlayer string
  | DuprPost string jval
  | HandlePaging jval
  | LoginUser
  | Sleep nat

record 'w state =
  world :: 'w
  trace :: "event list"

definition emit :: "event \<Rightarrow> 'w state \<Rightarrow> 'w state" where
  "emit e s = s\<lparr>trace := trace s @ [e]\<rparr>"

definition log :: "log_msg \<Rightarrow> 'w state \<Rightarrow> 'w state" where
  "log m s = emit (Log m) s"

definition call :: "event \<Rightarrow> ('w \<Rightarrow> 'a \<times> 'w) \<Rightarrow> 'w state \<Rightarrow> 'a \<times> 'w state" where
  "call e f s = (case f (world s) of (a, w') \<Rightarrow> (a, \<lparr>world = w', trace = trace s @ [e]\<rparr>))"

definition do_sleep :: "'w env \<Rightarrow> nat \<Rightarrow> 'w state \<Rightarrow> 'w state" where
  "do_sleep E n s = \<lparr>world = sleep E n (world s), trace = trace s @ [Sleep n]\<rparr>"

text \<open>\<^verbatim>\<open>stop_event is not None and stop_event.is_set()\<close>\<close>

definition is_set :: "'w env \<Rightarrow> 'w state \<Rightarrow> bool \<times> 'w state" where
  "is_set E s =
     (case stop_event E of
        None \<Rightarrow> (False, s)
      | Some poll \<Rightarrow> (case poll (world s) of (b, w') \<Rightarrow> (b, s\<lparr>world := w'\<rparr>)))"

section \<open>Profile enrichment (lines 66 to 108)\<close>

text \<open>The baseline profile of lines 77 to 90.\<close>

definition baseline_profile :: "string \<Rightarrow> obj \<Rightarrow> obj" where
  "baseline_profile player_id member =
     [(''id'', JStr player_id),
      (''duprId'', dict_get member ''duprId''),
      (''fullName'', dict_get member ''fullName''),
      (''gender'', dict_get member ''gender''),
      (''age'', dict_get member ''age''),
      (''shortAddress'', dict_get member ''shortAddress''),
      (''singles'', dict_get member ''singles''),
      (''doubles'', dict_get member ''doubles''),
      (''singlesVerified'', dict_get member ''singlesVerified''),
      (''doublesVerified'', dict_get member ''doublesVerified''),
      (''singlesReliability'', dict_get member ''singlesReliability''),
      (''doublesReliability'', dict_get member ''doublesReliability'')]"

text \<open>
  \<^verbatim>\<open>detailed_profile.get(key, {}).get("display", "N/A")\<close>, lines 96 to 101.
\<close>

definition display_of :: "jval \<Rightarrow> string \<Rightarrow> exn + jval" where
  "display_of detailed_profile key =
     (case get_default detailed_profile key (JObj []) of
        Inl e \<Rightarrow> Inl e
      | Inr v \<Rightarrow> get_default v ''display'' (JStr ''N/A''))"

text \<open>Lines 93 to 103: the merge of the display ratings, when a detail came back.\<close>

definition merge_detail :: "obj \<Rightarrow> jval \<Rightarrow> exn + obj" where
  "merge_detail profile detailed_profile =
     (if truthy detailed_profile then
        (case display_of detailed_profile ''singles'' of
           Inl e \<Rightarrow> Inl e
         | Inr sr \<Rightarrow>
             (case display_of detailed_profile ''doubles'' of
                Inl e \<Rightarrow> Inl e
              | Inr dr \<Rightarrow>
                  Inr (AList.update ''doubles_rating'' dr
                        (AList.update ''singles_rating'' sr profile))))
      else Inr profile)"

text \<open>
  The body of the \<^verbatim>\<open>try\<close> block of lines 74 to 106 for one member: \<open>Inl\<close> is the
  exception the handler of line 107 receives.
\<close>

definition try_profile ::
  "'w env \<Rightarrow> nat \<Rightarrow> nat \<Rightarrow> string \<Rightarrow> obj \<Rightarrow> 'w state \<Rightarrow> (exn + obj) \<times> 'w state" where
  "try_profile E idx n player_id member s =
     (let s1 = log (LogProcessingPlayer (idx + 1) n player_id) s;
          profile = baseline_profile player_id member
      in case call (GetPlayer player_id) (get_player E player_id) s1 of
           (Inl e, s2) \<Rightarrow> (Inl e, s2)
         | (Inr (status, detailed_profile), s2) \<Rightarrow>
             (case merge_detail profile detailed_profile of
                Inl e \<Rightarrow> (Inl e, s2)
              | Inr profile' \<Rightarrow> (Inr profile', do_sleep E 1 s2)))"

text \<open>
  The loop of lines 69 to 108 over the members not yet visited; \<open>idx\<close> is the index of
  the first of them, \<open>n\<close> is \<^verbatim>\<open>len(members)\<close>.
\<close>

fun enrich ::
  "'w env \<Rightarrow> nat \<Rightarrow> nat \<Rightarrow> obj list \<Rightarrow> obj list \<Rightarrow> 'w state \<Rightarrow> obj list \<times> 'w state" where
  "enrich E n idx [] player_profiles s = (player_profiles, s)"
| "enrich E n idx (member # rest) player_profiles s =
     (case is_set E s of
        (True, s1) \<Rightarrow> (player_profiles, log LogProfilesStopped s1)
      | (False, s1) \<Rightarrow>
          (let player_id = py_str E (dict_get member ''id'')
           in case try_profile E idx n player_id member s1 of
                (Inr profile, s2) \<Rightarrow> enrich E n (idx + 1) rest (player_profiles @ [profile]) s2
              | (Inl exc, s2) \<Rightarrow>
                  enrich E n (idx + 1) rest player_profiles
                    (log (LogProfileError player_id exc) s2)))"

section \<open>Match history (lines 110 to 172)\<close>

text \<open>The request body of lines 130 to 135 and the path of line 138.\<close>

definition page_data :: "int \<Rightarrow> int \<Rightarrow> jval" where
  "page_data matches_per_player offset =
     JObj [(''filters'', JObj []),
           (''sort'', JObj [(''order'', JStr ''DESC''), (''parameter'', JStr ''MATCH_DATE'')]),
           (''limit'', JInt matches_per_player),
           (''offset'', JInt offset)]"

definition history_path :: "string \<Rightarrow> string" where
  "history_path pid = ''/player/v1.0/'' @ pid @ ''/history''"

definition max_retries :: nat where
  "max_retries = 3"

text \<open>
  How one pass through the body of the \<^verbatim>\<open>while\<close> loop ends: with \<^verbatim>\<open>break\<close>, or
  at the loop test again with the values of \<^verbatim>\<open>offset\<close>, \<^verbatim>\<open>match_list\<close> and
  \<^verbatim>\<open>retry_count\<close>.
\<close>

datatype step = Break | Continue "int option" "jval list" nat

text \<open>The handler of lines 163 to 167.\<close>

definition on_exception ::
  "'w env \<Rightarrow> exn \<Rightarrow> int \<Rightarrow> jval list \<Rightarrow> nat \<Rightarrow> 'w state \<Rightarrow> step \<times> 'w state" where
  "on_exception E exc offset match_list retry_count s =
     (Continue (Some offset) match_list (retry_count + 1),
      do_sleep E 2 (log (LogPagingError exc) s))"

text \<open>Lines 152 to 161: a response with status 200.\<close>

definition on_ok ::
  "'w env \<Rightarrow> response \<Rightarrow> int \<Rightarrow> jval list \<Rightarrow> nat \<Rightarrow> 'w state \<Rightarrow> step \<times> 'w state" where
  "on_ok E r offset match_list retry_count s =
     (case json r of
        Inl exc \<Rightarrow> on_exception E exc offset match_list retry_count s
      | Inr data \<Rightarrow>
          (case call (HandlePaging data) (handle_paging E data) s of
             (Inl exc, s1) \<Rightarrow> on_exception E exc offset match_list retry_count s1
           | (Inr (offset', hits), s1) \<Rightarrow>
               if hits = [] then (Break, log LogNoMoreMatches s1)
               else (Continue offset' (match_list @ hits) retry_count,
                     do_sleep E 1 (log (LogGotMatches (length hits)) s1))))"

text \<open>Lines 143 to 150: a response with another status.\<close>

definition on_status ::
  "'w env \<Rightarrow> response \<Rightarrow> int \<Rightarrow> jval list \<Rightarrow> nat \<Rightarrow> 'w state \<Rightarrow> step \<times> 'w state" where
  "on_status E r offset match_list retry_count s =
     (let s1 = log (LogHistoryStatus (status_code r)) s
      in if status_code r = 403 then
           (case call LoginUser (login_user E) (log LogRefreshToken s1) of
              (Inl exc, s2) \<Rightarrow> on_exception E exc offset match_list retry_count s2
            | (Inr u, s2) \<Rightarrow> (Continue (Some offset) match_list (retry_count + 1), s2))
         else (Break, s1))"

text \<open>Lines 126 to 167: one pass through the body of the \<^verbatim>\<open>while\<close> loop.\<close>

definition page_step ::
  "'w env \<Rightarrow> string \<Rightarrow> int \<Rightarrow> int \<Rightarrow> jval list \<Rightarrow> nat \<Rightarrow> 'w state \<Rightarrow> step \<times> 'w state" where
  "page_step E pid matches_per_player offset match_list retry_count s =
     (case is_set E s of
        (True, s1) \<Rightarrow> (Break, log LogPagingStopped s1)
      | (False, s1) \<Rightarrow>
          (let body = page_data matches_per_player offset
           in case call (DuprPost (history_path pid) body)
                     (dupr_post E (history_path pid) body) s1 of
                (Inl exc, s2) \<Rightarrow> on_exception E exc offset match_list retry_count s2
              | (Inr r, s2) \<Rightarrow>
                  if status_code r \<noteq> 200 then on_status E r offset match_list retry_count s2
                  else on_ok E r offset match_list retry_count s2))"

text \<open>
  The \<^verbatim>\<open>while\<close> loop of line 125. Nothing bounds the number of pages: a server that
  keeps answering with hits and a next offset keeps the loop running, so the result is
  optional and \<open>None\<close> stands for a loop that never ends.
\<close>

partial_function (option) paging_loop ::
  "'w env \<Rightarrow> string \<Rightarrow> int \<Rightarrow> int option \<Rightarrow> jval list \<Rightarrow> nat \<Rightarrow> 'w state
     \<Rightarrow> (jval list \<times> 'w state) option" where
  "paging_loop E pid matches_per_player offset match_list retry_count s =
     (case offset of
        None \<Rightarrow> Some (match_list, s)
      | Some off \<Rightarrow>
          if retry_count < max_retries then
            (case page_step E pid matches_per_player off match_list retry_count s of
               (Break, s') \<Rightarrow> Some (match_list, s')
             | (Continue offset' match_list' retry_count', s') \<Rightarrow>
                 paging_loop E pid matches_per_player offset' match_list' retry_count' s')
          else Some (match_list, s))"

declare paging_loop.simps [code]

text \<open>
  The \<^verbatim>\<open>for\<close> loop of lines 115 to 172 over the player ids not yet visited; the
  history is a dict from player id to match list.
\<close>

type_synonym history = "(string \<times> jval list) list"

fun history_loop ::
  "'w env \<Rightarrow> int \<Rightarrow> nat \<Rightarrow> nat \<Rightarrow> string list \<Rightarrow> history \<Rightarrow> 'w state
     \<Rightarrow> (history \<times> 'w state) option" where
  "history_loop E matches_per_player n idx [] match_history s = Some (match_history, s)"
| "history_loop E matches_per_player n idx (pid # rest) match_history s =
     (case is_set E s of
        (True, s1) \<Rightarrow> Some (match_history, log LogHistoryStopped s1)
      | (False, s1) \<Rightarrow>
          (case paging_loop E pid matches_per_player (Some 0) [] 0
                  (log (LogHistoryPlayer (idx + 1) n pid) s1) of
             None \<Rightarrow> None
           | Some (match_list, s2) \<Rightarrow>
               if match_list \<noteq> [] then
                 history_loop E matches_per_player n (idx + 1) rest
                   (AList.update pid match_list match_history) s2
               else
                 history_loop E matches_per_player n (idx + 1) rest match_history
                   (log (LogNoHistory pid) s2)))"

text \<open>
  Line 113: \<^verbatim>\<open>[str(m["id"]) for m in ...]\<close>; the first member without the key \<^verbatim>\<open>id\<close>
  raises \<^verbatim>\<open>KeyError\<close>.
\<close>

fun player_ids_of :: "'w env \<Rightarrow> obj list \<Rightarrow> error + string list" where
  "player_ids_of E [] = Inr []"
| "player_ids_of E (m # ms) =
     (case dict_item m ''id'' of
        Inl e \<Rightarrow> Inl e
      | Inr v \<Rightarrow>
          (case player_ids_of E ms of
             Inl e \<Rightarrow> Inl e
           | Inr ids \<Rightarrow> Inr (py_str E v # ids)))"

section \<open>The pipeline (lines 43 to 184)\<close>

record crawl_result =
  club_info :: obj
  members :: "obj list"
  player_profiles :: "obj list"
  match_history :: history

text \<open>Lines 175 to 180.\<close>

definition make_club_info :: "string \<Rightarrow> obj list \<Rightarrow> history \<Rightarrow> obj" where
  "make_club_info club_id ms mh =
     [(''id'', JStr club_id),
      (''name'', (case ms of [] \<Rightarrow> JStr [] | m # rest \<Rightarrow> dict_get m ''clubName'')),
      (''total_members'', JInt (int (length ms))),
      (''scraped_matches'', JInt (int (sum_list (map (\<lambda>kv. length (snd kv)) mh))))]"

definition get_club_data ::
  "'w env \<Rightarrow> string \<Rightarrow> int \<Rightarrow> int \<Rightarrow> int \<Rightarrow> 'w state
     \<Rightarrow> ((error + crawl_result) \<times> 'w state) option" where
  "get_club_data E club_id max_members max_matches matches_per_player s =
     (let s1 = log LogFetchingMembers (log (LogStart club_id) s)
      in case call (GetMembersByClub club_id) (get_members_by_club E club_id) s1 of
           (Inl exc, s2) \<Rightarrow> Some (Inl (Uncaught exc), s2)
         | (Inr (status, roster), s2) \<Rightarrow>
             if \<not> status then Some (Inl MembersUnavailable, s2)
             else
               (let ms = slice_upto roster (or_zero max_members)
                in case enrich E (length ms) 0 ms [] (log LogFetchingProfiles s2) of
                     (profiles, s3) \<Rightarrow>
                       (case player_ids_of E (slice_upto ms (or_zero max_matches)) of
                          Inl e \<Rightarrow> Some (Inl e, log LogFetchingHistory s3)
                        | Inr player_ids \<Rightarrow>
                            (case history_loop E matches_per_player (length player_ids) 0
                                    player_ids [] (log LogFetchingHistory s3) of
                               None \<Rightarrow> None
                             | Some (mh, s4) \<Rightarrow>
                                 Some (Inr \<lparr>club_info = make_club_info club_id ms mh,
                                            members = ms,
                                            player_profiles = profiles,
                                            match_history = mh\<rparr>, s4)))))"

section \<open>Reading a run\<close>

text \<open>The result of a run that returned normally.\<close>

fun returned :: "((error + crawl_result) \<times> 'w state) option \<Rightarrow> crawl_result option" where
  "returned (Some (Inr r, s)) = Some r"
| "returned _ = None"

text \<open>The error of a run that raised.\<close>

fun raised :: "((error + crawl_result) \<times> 'w state) option \<Rightarrow> error option" where
  "raised (Some (Inl e, s)) = Some e"
| "raised _ = None"

text \<open>
  What a stretch of the trace holds: the number of reauthentications, the requests that
  were posted (path and body, in order), the delays, the detail lookups.
\<close>

definition logins :: "event list \<Rightarrow> nat" where
  "logins evs = length (filter (\<lambda>e. e = LoginUser) evs)"

fun post_of :: "event \<Rightarrow> (string \<times> jval) option" where
  "post_of (DuprPost path body) = Some (path, body)"
| "post_of _ = None"

definition posts :: "event list \<Rightarrow> (string \<times> jval) list" where
  "posts evs = List.map_filter post_of evs"

fun sleep_of :: "event \<Rightarrow> nat option" where
  "sleep_of (Sleep n) = Some n"
| "sleep_of _ = None"

definition sleeps :: "event list \<Rightarrow> nat list" where
  "sleeps evs = List.map_filter sleep_of evs"

fun lookup_of :: "event \<Rightarrow> string option" where
  "lookup_of (GetPlayer pid) = Some pid"
| "lookup_of _ = None"

definition lookups :: "event list \<Rightarrow> string list" where
  "lookups evs = List.map_filter lookup_of evs"

text \<open>
  The list is what the paging loop of the player accumulated in some run from offset 0.
\<close>

definition fetched :: "'w env \<Rightarrow> int \<Rightarrow> string \<Rightarrow> jval list \<Rightarrow> bool" where
  "fetched E mpp pid ml = (\<exists>s1 s2. paging_loop E pid mpp (Some 0) [] 0 s1 = Some (ml, s2))"

text \<open>The cancellation flag is never found set, and polling it changes nothing.\<close>

definition never_set :: "'w env \<Rightarrow> bool" where
  "never_set E = (\<forall>s. is_set E s = (False, s))"

text \<open>
  The endpoint runs out of pages: \<open>left w path off\<close> bounds the number of pages with hits
  and a next offset that can still follow a request to \<open>path\<close> at offset \<open>off\<close> in the
  world \<open>w\<close>. No call of the environment raises the bound, and a response with status 200
  that decodes to hits and a next offset has a smaller bound at that next offset. A server
  that consumes its pages has such a bound in its state, a stateless server that answers
  by the offset of the request has one in the offset, and a server whose pages all are
  last pages has the bound 0.
\<close>

definition pages_run_out :: "'w env \<Rightarrow> ('w \<Rightarrow> string \<Rightarrow> int \<Rightarrow> nat) \<Rightarrow> bool" where
  "pages_run_out E left =
     ((\<forall>s path off. left (world (snd (is_set E s))) path off \<le> left (world s) path off) \<and>
      (\<forall>p body w path off. left (snd (dupr_post E p body w)) path off \<le> left w path off) \<and>
      (\<forall>d w path off. left (snd (handle_paging E d w)) path off \<le> left w path off) \<and>
      (\<forall>w path off. left (snd (login_user E w)) path off \<le> left w path off) \<and>
      (\<forall>n w path off. left (sleep E n w) path off \<le> left w path off) \<and>
      (\<forall>path mpp off w r w1 d off' hits w2.
         dupr_post E path (page_data mpp off) w = (Inr r, w1) \<longrightarrow> status_code r = 200 \<longrightarrow>
         json r = Inr d \<longrightarrow> handle_paging E d w1 = (Inr (Some off', hits), w2) \<longrightarrow> hits \<noteq> [] \<longrightarrow>
         left w2 path off' < left w path off))"

text \<open>
  Every request for the player ends in an exception: the post raises, or the response has
  status 200 and decoding its body raises (in \<^verbatim>\<open>r.json()\<close> or in \<^verbatim>\<open>handle_paging\<close>).
\<close>

definition request_raises :: "'w env \<Rightarrow> string \<Rightarrow> bool" where
  "request_raises E pid =
     (\<forall>body w.
        case dupr_post E (history_path pid) body w of
          (Inl exc, w1) \<Rightarrow> True
        | (Inr r, w1) \<Rightarrow>
            status_code r = 200 \<and>
            (case json r of
               Inl exc \<Rightarrow> True
             | Inr d \<Rightarrow> (case handle_paging E d w1 of (Inl exc, w2) \<Rightarrow> True | (Inr p, w2) \<Rightarrow> False)))"

section \<open>A simulated client\<close>

text \<open>
  A scripted environment for running the pipeline on concrete inputs: the roster is
  fixed, the answers of the detail lookups, of the posts and of the polls of the
  cancellation flag are consumed from lists, reauthentication succeeds and the clock
  does nothing. A page body is a dict with the keys \<^verbatim>\<open>offset\<close> and \<^verbatim>\<open>hits\<close>.
\<close>

record sim =
  sim_details :: "(exn + bool \<times> jval) list"
  sim_posts :: "(exn + response) list"
  sim_polls :: "bool list"

fun sim_paging :: "jval \<Rightarrow> exn + int option \<times> jval list" where
  "sim_paging (JObj d) =
     Inr ((case map_of d ''offset'' of Some (JInt n) \<Rightarrow> Some n | _ \<Rightarrow> None),
          (case map_of d ''hits'' of Some (JList hs) \<Rightarrow> hs | _ \<Rightarrow> []))"
| "sim_paging _ = Inl AttributeError"

text \<open>
  Python's \<^verbatim>\<open>str\<close> on the atoms: a string is itself, an integer its decimal numeral,
  \<^verbatim>\<open>None\<close>, \<^verbatim>\<open>True\<close> and \<^verbatim>\<open>False\<close> their names. The \<^verbatim>\<open>repr\<close> of a list or a dict is not
  spelled out: the rosters of the simulated client carry atoms as ids.
\<close>

fun nat_str :: "nat \<Rightarrow> string" where
  "nat_str n =
     (if n < 10 then [''0123456789'' ! n]
      else nat_str (n div 10) @ [''0123456789'' ! (n mod 10)])"

declare nat_str.simps [simp del]

definition int_str :: "int \<Rightarrow> string" where
  "int_str i = (if i < 0 then ''-'' @ nat_str (nat (- i)) else nat_str (nat i))"

fun sim_str :: "jval \<Rightarrow> string" where
  "sim_str (JStr s) = s"
| "sim_str (JInt i) = int_str i"
| "sim_str JNull = ''None''"
| "sim_str (JBool b) = (if b then ''True'' else ''False'')"
| "sim_str (JList xs) = ''[...]''"
| "sim_str (JObj d) = ''{...}''"

definition sim_get_player :: "string \<Rightarrow> sim \<Rightarrow> (exn + bool \<times> jval) \<times> sim" where
  "sim_get_player pid w =
     (case sim_details w of
        [] \<Rightarrow> (Inr (False, JNull), w)
      | d # ds \<Rightarrow> (d, w\<lparr>sim_details := ds\<rparr>))"

definition sim_post :: "string \<Rightarrow> jval \<Rightarrow> sim \<Rightarrow> (exn + response) \<times> sim" where
  "sim_post path body w =
     (case sim_posts w of
        [] \<Rightarrow> (Inl (ClientExn ''no response''), w)
      | r # rs \<Rightarrow> (r, w\<lparr>sim_posts := rs\<rparr>))"

definition sim_poll :: "sim \<Rightarrow> bool \<times> sim" where
  "sim_poll w =
     (case sim_polls w of
        [] \<Rightarrow> (False, w)
      | b # bs \<Rightarrow> (b, w\<lparr>sim_polls := bs\<rparr>))"

definition sim_env :: "bool \<Rightarrow> obj list \<Rightarrow> sim env" where
  "sim_env ok roster =
     \<lparr>get_members_by_club = (\<lambda>club_id w. (Inr (ok, roster), w)),
      get_player = sim_get_player,
      dupr_post = sim_post,
      handle_paging = (\<lambda>d w. (sim_paging d, w)),
      login_user = (\<lambda>w. (Inr (), w)),
      stop_event = Some sim_poll,
      sleep = (\<lambda>n w. w),
      py_str = sim_str\<rparr>"

text \<open>
  The same without a cancellation flag (\<^verbatim>\<open>stop_event=None\<close>, the default), and with an
  endpoint that is down: every post raises.
\<close>

definition sim_free :: "bool \<Rightarrow> obj list \<Rightarrow> sim env" where
  "sim_free ok roster = (sim_env ok roster)\<lparr>stop_event := None\<rparr>"

definition sim_down :: "bool \<Rightarrow> obj list \<Rightarrow> sim env" where
  "sim_down ok roster =
     (sim_free ok roster)\<lparr>dupr_post := (\<lambda>path body w. (Inl (ClientExn ''timeout''), w))\<rparr>"

definition sim_start :: "(exn + bool \<times> jval) list \<Rightarrow> (exn + response) list \<Rightarrow> bool list \<Rightarrow> sim state" where
  "sim_start details answers polls =
     \<lparr>world = \<lparr>sim_details = details, sim_posts = answers, sim_polls = polls\<rparr>, trace = []\<rparr>"

text \<open>A page with the given next offset and hits, and a response carrying it.\<close>

definition page :: "int option \<Rightarrow> jval list \<Rightarrow> jval" where
  "page off hits =
     JObj [(''offset'', (case off of None \<Rightarrow> JNull | Some n \<Rightarrow> JInt n)), (''hits'', JList hits)]"

definition ok_response :: "int option \<Rightarrow> jval list \<Rightarrow> exn + response" where
  "ok_response off hits = Inr \<lparr>status_code = 200, json = Inr (page off hits)\<rparr>"

definition status_response :: "int \<Rightarrow> exn + response" where
  "status_response c = Inr \<lparr>status_code = c, json = Inl (ClientExn ''no body'')\<rparr>"

text \<open>
  A stateless endpoint: it answers by the offset of the request alone, with one page
  of hits and the next offset 20 at offset 0, and with a last page of hits at any other
  offset. Nothing in its state changes, however often it is asked.
\<close>

definition offset_of :: "jval \<Rightarrow> int" where
  "offset_of body =
     (case body of
        JObj d \<Rightarrow> (case map_of d ''offset'' of Some (JInt n) \<Rightarrow> n | _ \<Rightarrow> 0)
      | _ \<Rightarrow> 0)"

definition paged_post :: "string \<Rightarrow> jval \<Rightarrow> sim \<Rightarrow> (exn + response) \<times> sim" where
  "paged_post path body w =
     ((if offset_of body = 0 then ok_response (Some 20) [JStr ''first'']
       else ok_response None [JStr ''second'']), w)"

definition sim_paged :: "bool \<Rightarrow> obj list \<Rightarrow> sim env" where
  "sim_paged ok roster = (sim_env ok roster)\<lparr>dupr_post := paged_post\<rparr>"

text \<open>A roster record with an id and a club name.\<close>

definition member_of :: "string \<Rightarrow> obj" where
  "member_of pid = [(''id'', JStr pid), (''fullName'', JStr ''player''), (''clubName'', JStr ''club'')]"

section \<open>Basic facts\<close>

subsection \<open>State and trace\<close>


lemma world_log [simp]: "world (log m s) = world s"
  by (simp add: log_def emit_def)

lemma trace_log [simp]: "trace (log m s) = trace s @ [Log m]"
  by (simp add: log_def emit_def)

lemma world_do_sleep [simp]: "world (do_sleep E n s) = sleep E n (world s)"
  by (simp add: do_sleep_def)

lemma trace_do_sleep [simp]: "trace (do_sleep E n s) = trace s @ [Sleep n]"
  by (simp add: do_sleep_def)

lemma call_eq:
  "call e f s = (a, s') \<longleftrightarrow> (\<exists>w'. f (world s) = (a, w') \<and> s' = \<lparr>world = w', trace = trace s @ [e]\<rparr>)"
  by (auto simp: call_def split: prod.splits)

lemma trace_is_set: "is_set E s = (b, s1) \<Longrightarrow> trace s1 = trace s"
  by (auto simp: is_set_def split: option.splits prod.splits)

lemma posts_append [simp]: "posts (xs @ ys) = posts xs @ posts ys"
  by (simp add: posts_def map_filter_def)

lemma posts_Nil [simp]: "posts [] = []"
  by (simp add: posts_def map_filter_def)

lemma posts_Cons [simp]: "posts (e # evs) = (case post_of e of None \<Rightarrow> posts evs | Some p \<Rightarrow> p # posts evs)"
  by (simp add: posts_def map_filter_def split: option.splits)

lemma sleeps_append [simp]: "sleeps (xs @ ys) = sleeps xs @ sleeps ys"
  by (simp add: sleeps_def map_filter_def)

lemma sleeps_Nil [simp]: "sleeps [] = []"
  by (simp add: sleeps_def map_filter_def)

lemma sleeps_Cons [simp]: "sleeps (e # evs) = (case sleep_of e of None \<Rightarrow> sleeps evs | Some p \<Rightarrow> p # sleeps evs)"
  by (simp add: sleeps_def map_filter_def split: option.splits)

lemma lookups_append [simp]: "lookups (xs @ ys) = lookups xs @ lookups ys"
  by (simp add: lookups_def map_filter_def)

lemma lookups_Nil [simp]: "lookups [] = []"
  by (simp add: lookups_def map_filter_def)

lemma lookups_Cons [simp]: "lookups (e # evs) = (case lookup_of e of None \<Rightarrow> lookups evs | Some p \<Rightarrow> p # lookups evs)"
  by (simp add: lookups_def map_filter_def split: option.splits)

lemma logins_append [simp]: "logins (xs @ ys) = logins xs + logins ys"
  by (simp add: logins_def)

lemma logins_Nil [simp]: "logins [] = 0"
  by (simp add: logins_def)

lemma logins_Cons [simp]: "logins (e # evs) = (if e = LoginUser then Suc (logins evs) else logins evs)"
  by (simp add: logins_def)

subsection \<open>Profile enrichment\<close>

lemma try_profile_trace:
  assumes "try_profile E idx n player_id member s = (res, s')"
  shows "trace s' = trace s @ [Log (LogProcessingPlayer (idx + 1) n player_id), GetPlayer player_id]
            @ (case res of Inl exc \<Rightarrow> [] | Inr profile \<Rightarrow> [Sleep 1])"
  using assms
  by (auto simp: try_profile_def Let_def call_def split: prod.splits sum.splits)

lemma enrich_sleeps:
  "enrich E n idx ms acc s = (acc', s') \<Longrightarrow>
   length acc \<le> length acc' \<and>
   sleeps (trace s') = sleeps (trace s) @ replicate (length acc' - length acc) 1"
proof (induction ms arbitrary: idx acc s)
  case Nil
  then show ?case by simp
next
  case (Cons member rest)
  obtain b s1 where p: "is_set E s = (b, s1)" by (cases "is_set E s")
  note t1 = trace_is_set [OF p]
  show ?case
  proof (cases b)
    case True
    with Cons.prems p t1 show ?thesis by auto
  next
    case False
    obtain res s2 where tp: "try_profile E idx n (py_str E (dict_get member ''id'')) member s1 = (res, s2)"
      by (cases "try_profile E idx n (py_str E (dict_get member ''id'')) member s1")
    note t2 = try_profile_trace [OF tp]
    show ?thesis
    proof (cases res)
      case (Inl exc)
      with Cons.prems p False tp
      have "enrich E n (idx + 1) rest acc (log (LogProfileError (py_str E (dict_get member ''id'')) exc) s2) = (acc', s')"
        by simp
      from Cons.IH [OF this] show ?thesis using t1 t2 Inl by simp
    next
      case (Inr profile)
      with Cons.prems p False tp
      have "enrich E n (idx + 1) rest (acc @ [profile]) s2 = (acc', s')"
        by simp
      from Cons.IH [OF this]
      have le: "Suc (length acc) \<le> length acc'"
        and eq: "sleeps (trace s') = sleeps (trace s2) @ replicate (length acc' - Suc (length acc)) 1"
        by simp_all
      from le have k: "length acc' - length acc = Suc (length acc' - Suc (length acc))"
        by simp
      show ?thesis using le eq t1 t2 Inr by (simp add: k)
    qed
  qed
qed


subsection \<open>One pass of the paging loop\<close>

lemma paging_loop_None: "paging_loop E pid mpp None ml rc s = Some (ml, s)"
  by (subst paging_loop.simps) simp

lemma paging_loop_exhausted: "max_retries \<le> rc \<Longrightarrow> paging_loop E pid mpp off ml rc s = Some (ml, s)"
  by (subst paging_loop.simps) (simp split: option.splits)

lemma paging_loop_Break:
  "rc < max_retries \<Longrightarrow> page_step E pid mpp off ml rc s = (Break, s') \<Longrightarrow>
   paging_loop E pid mpp (Some off) ml rc s = Some (ml, s')"
  by (subst paging_loop.simps) simp

lemma paging_loop_Continue:
  "rc < max_retries \<Longrightarrow> page_step E pid mpp off ml rc s = (Continue off' ml' rc', s') \<Longrightarrow>
   paging_loop E pid mpp (Some off) ml rc s = paging_loop E pid mpp off' ml' rc' s'"
  by (subst paging_loop.simps) simp

lemma page_step_403:
  assumes "is_set E s = (False, s1)"
    and "dupr_post E (history_path pid) (page_data mpp off) (world s1) = (Inr r, w2)"
    and "status_code r = 403"
    and "login_user E w2 = (Inr (), w3)"
  shows "page_step E pid mpp off ml rc s =
           (Continue (Some off) ml (rc + 1),
            \<lparr>world = w3,
             trace = trace s @ [DuprPost (history_path pid) (page_data mpp off),
                                Log (LogHistoryStatus 403), Log LogRefreshToken, LoginUser]\<rparr>)"
  using assms trace_is_set [OF assms(1)]
  by (simp add: page_step_def call_def on_status_def Let_def)

lemma page_step_ok_empty:
  assumes "is_set E s = (False, s1)"
    and "dupr_post E (history_path pid) (page_data mpp off) (world s1) = (Inr r, w2)"
    and "status_code r = 200"
    and "json r = Inr d"
    and "handle_paging E d w2 = (Inr (off', []), w3)"
  shows "page_step E pid mpp off ml rc s =
           (Break,
            \<lparr>world = w3,
             trace = trace s @ [DuprPost (history_path pid) (page_data mpp off),
                                HandlePaging d, Log LogNoMoreMatches]\<rparr>)"
  using assms trace_is_set [OF assms(1)]
  by (simp add: page_step_def call_def on_ok_def Let_def log_def emit_def)

lemma page_step_ok_hits:
  assumes "is_set E s = (False, s1)"
    and "dupr_post E (history_path pid) (page_data mpp off) (world s1) = (Inr r, w2)"
    and "status_code r = 200"
    and "json r = Inr d"
    and "handle_paging E d w2 = (Inr (off', hits), w3)"
    and "hits \<noteq> []"
  shows "page_step E pid mpp off ml rc s =
           (Continue off' (ml @ hits) rc,
            \<lparr>world = sleep E 1 w3,
             trace = trace s @ [DuprPost (history_path pid) (page_data mpp off),
                                HandlePaging d, Log (LogGotMatches (length hits)), Sleep 1]\<rparr>)"
  using assms trace_is_set [OF assms(1)]
  by (simp add: page_step_def call_def on_ok_def Let_def log_def emit_def do_sleep_def)

subsection \<open>The paging loop when every request raises\<close>

lemma never_setD: "never_set E \<Longrightarrow> is_set E s = (False, s)"
  by (simp add: never_set_def)

lemma on_exception_eq:
  "on_exception E exc off ml rc s =
     (Continue (Some off) ml (rc + 1),
      \<lparr>world = sleep E 2 (world s), trace = trace s @ [Log (LogPagingError exc), Sleep 2]\<rparr>)"
  by (simp add: on_exception_def do_sleep_def)

lemma page_step_raises:
  assumes rr: "request_raises E pid"
    and st: "page_step E pid mpp off ml rc s = (st, s')"
  shows "(st = Break \<and> posts (trace s') = posts (trace s) \<and> logins (trace s') = logins (trace s)
            \<and> fst (is_set E s))
         \<or> (st = Continue (Some off) ml (rc + 1)
            \<and> posts (trace s') = posts (trace s) @ [(history_path pid, page_data mpp off)]
            \<and> logins (trace s') = logins (trace s))"
proof -
  obtain b s1 where p: "is_set E s = (b, s1)" by (cases "is_set E s")
  note t1 = trace_is_set [OF p]
  show ?thesis
  proof (cases b)
    case True
    with st p t1 show ?thesis by (auto simp: page_step_def)
  next
    case False
    obtain res w2 where post: "dupr_post E (history_path pid) (page_data mpp off) (world s1) = (res, w2)"
      by (cases "dupr_post E (history_path pid) (page_data mpp off) (world s1)")
    note k = rr [unfolded request_raises_def, rule_format, of "page_data mpp off" "world s1"]
    show ?thesis
    proof (cases res)
      case (Inl exc)
      with st p False post t1 show ?thesis
        by (auto simp: page_step_def call_def on_exception_eq)
    next
      case (Inr r)
      with k post have c: "status_code r = 200"
        and d: "case json r of Inl exc \<Rightarrow> True
             | Inr d \<Rightarrow> (case handle_paging E d w2 of (Inl exc, w3) \<Rightarrow> True | (Inr p, w3) \<Rightarrow> False)"
        by simp_all
      show ?thesis
      proof (cases "json r")
        case (Inl exc)
        with st p False post t1 Inr c show ?thesis
          by (auto simp: page_step_def call_def on_ok_def on_exception_eq)
      next
        case jr: (Inr data)
        with d obtain exc w3 where "handle_paging E data w2 = (Inl exc, w3)"
          by (auto split: prod.splits sum.splits)
        with st p False post t1 Inr c jr show ?thesis
          by (auto simp: page_step_def call_def on_ok_def on_exception_eq)
      qed
    qed
  qed
qed

lemma paging_loop_raises:
  assumes rr: "request_raises E pid"
  shows "m = max_retries - rc \<Longrightarrow>
     \<exists>s' k. paging_loop E pid mpp (Some off) ml rc s = Some (ml, s')
       \<and> posts (trace s') = posts (trace s) @ replicate k (history_path pid, page_data mpp off)
       \<and> logins (trace s') = logins (trace s)
       \<and> k \<le> max_retries - rc
       \<and> (never_set E \<longrightarrow> k = max_retries - rc)"
proof (induction m arbitrary: rc s)
  case 0
  then have "max_retries \<le> rc" by simp
  from paging_loop_exhausted [OF this, of E pid mpp "Some off" ml s] 0
  show ?case by (intro exI [of _ s] exI [of _ 0]) simp
next
  case (Suc m)
  then have lt: "rc < max_retries" by simp
  obtain st s1 where ps: "page_step E pid mpp off ml rc s = (st, s1)"
    by (cases "page_step E pid mpp off ml rc s")
  from page_step_raises [OF rr ps] show ?case
  proof
    assume a: "st = Break \<and> posts (trace s1) = posts (trace s) \<and> logins (trace s1) = logins (trace s)
       \<and> fst (is_set E s)"
    then have "\<not> never_set E" by (metis fst_conv never_setD)
    with a paging_loop_Break [OF lt, of E pid mpp off ml s s1] ps
    show ?thesis by (intro exI [of _ s1] exI [of _ 0]) simp
  next
    assume a: "st = Continue (Some off) ml (rc + 1)
            \<and> posts (trace s1) = posts (trace s) @ [(history_path pid, page_data mpp off)]
            \<and> logins (trace s1) = logins (trace s)"
    from Suc.prems have "m = max_retries - (rc + 1)" by simp
    from Suc.IH [OF this, of s1] obtain s' k where
      r: "paging_loop E pid mpp (Some off) ml (rc + 1) s1 = Some (ml, s')"
      and po: "posts (trace s') = posts (trace s1) @ replicate k (history_path pid, page_data mpp off)"
      and lo: "logins (trace s') = logins (trace s1)"
      and le: "k \<le> max_retries - (rc + 1)"
      and ex: "never_set E \<longrightarrow> k = max_retries - (rc + 1)"
      by blast
    from a ps paging_loop_Continue [OF lt, of E pid mpp off ml s "Some off" ml "rc + 1" s1] r
    have "paging_loop E pid mpp (Some off) ml rc s = Some (ml, s')" by simp
    moreover from a po have "posts (trace s') = posts (trace s) @ replicate (Suc k) (history_path pid, page_data mpp off)"
      by (simp add: replicate_app_Cons_same)
    moreover from a lo have "logins (trace s') = logins (trace s)" by simp
    moreover from le lt have "Suc k \<le> max_retries - rc" by simp
    moreover from ex lt have "never_set E \<longrightarrow> Suc k = max_retries - rc" by auto
    ultimately show ?thesis by blast
  qed
qed

subsection \<open>The history loop and the pipeline\<close>

lemma set_update_subset: "set (AList.update k v al) \<subseteq> insert (k, v) (set al)"
  by (induction al) auto

lemma history_loop_entries:
  "history_loop E mpp n idx pids mh s = Some (mh', s') \<Longrightarrow>
   \<forall>kv \<in> set mh. snd kv \<noteq> [] \<and> fetched E mpp (fst kv) (snd kv) \<Longrightarrow>
   \<forall>kv \<in> set mh'. snd kv \<noteq> [] \<and> fetched E mpp (fst kv) (snd kv)"
proof (induction pids arbitrary: idx mh s)
  case Nil
  then show ?case by simp
next
  case (Cons pid rest)
  obtain b s1 where p: "is_set E s = (b, s1)" by (cases "is_set E s")
  show ?case
  proof (cases b)
    case True
    with Cons.prems p show ?thesis by simp
  next
    case False
    with Cons.prems p obtain ml s2 where
      pl: "paging_loop E pid mpp (Some 0) [] 0 (log (LogHistoryPlayer (idx + 1) n pid) s1) = Some (ml, s2)"
      by (auto split: option.splits)
    show ?thesis
    proof (cases "ml = []")
      case True
      with Cons.prems p False pl
      have "history_loop E mpp n (idx + 1) rest mh (log (LogNoHistory pid) s2) = Some (mh', s')"
        by simp
      from Cons.IH [OF this Cons.prems(2)] show ?thesis .
    next
      case ne: False
      with Cons.prems p False pl
      have h: "history_loop E mpp n (idx + 1) rest (AList.update pid ml mh) s2 = Some (mh', s')"
        by simp
      have f: "fetched E mpp pid ml"
        unfolding fetched_def using pl by blast
      have "\<forall>kv \<in> set (AList.update pid ml mh). snd kv \<noteq> [] \<and> fetched E mpp (fst kv) (snd kv)"
        using ne f Cons.prems(2) set_update_subset [of pid ml mh] by auto
      from Cons.IH [OF h this] show ?thesis .
    qed
  qed
qed

lemma get_club_data_returned:
  assumes "get_club_data E club_id max_members max_matches mpp s = Some (Inr r, s')"
  shows "\<exists>roster s2 s3 ids.
           call (GetMembersByClub club_id) (get_members_by_club E club_id)
             (log LogFetchingMembers (log (LogStart club_id) s)) = (Inr (True, roster), s2) \<and>
           enrich E (length (slice_upto roster (or_zero max_members))) 0
             (slice_upto roster (or_zero max_members)) [] (log LogFetchingProfiles s2)
               = (player_profiles r, s3) \<and>
           player_ids_of E (slice_upto (slice_upto roster (or_zero max_members)) (or_zero max_matches))
               = Inr ids \<and>
           history_loop E mpp (length ids) 0 ids [] (log LogFetchingHistory s3)
               = Some (match_history r, s') \<and>
           members r = slice_upto roster (or_zero max_members) \<and>
           club_info r = make_club_info club_id (members r) (match_history r)"
  using assms
  by (auto simp: get_club_data_def Let_def split: prod.splits sum.splits if_splits option.splits)

lemma returned_Some:
  "returned x = Some r \<longleftrightarrow> (\<exists>s'. x = Some (Inr r, s'))"
  by (cases x rule: returned.cases) auto

subsection \<open>Termination when the endpoint runs out of pages\<close>

lemma run_out_poll:
  "pages_run_out E left \<Longrightarrow> is_set E s = (b, s1) \<Longrightarrow> left (world s1) path off \<le> left (world s) path off"
  unfolding pages_run_out_def by (metis snd_conv)

lemma run_out_post:
  "pages_run_out E left \<Longrightarrow> dupr_post E p body w = (res, w1) \<Longrightarrow> left w1 path off \<le> left w path off"
  unfolding pages_run_out_def by (metis snd_conv)

lemma run_out_paging:
  "pages_run_out E left \<Longrightarrow> handle_paging E d w = (res, w1) \<Longrightarrow> left w1 path off \<le> left w path off"
  unfolding pages_run_out_def by (metis snd_conv)

lemma run_out_login:
  "pages_run_out E left \<Longrightarrow> login_user E w = (res, w1) \<Longrightarrow> left w1 path off \<le> left w path off"
  unfolding pages_run_out_def by (metis snd_conv)

lemma run_out_sleep: "pages_run_out E left \<Longrightarrow> left (sleep E n w) path off \<le> left w path off"
  unfolding pages_run_out_def by blast

lemma run_out_page:
  "pages_run_out E left \<Longrightarrow> dupr_post E path (page_data mpp off) w = (Inr r, w1) \<Longrightarrow>
   status_code r = 200 \<Longrightarrow> json r = Inr d \<Longrightarrow>
   handle_paging E d w1 = (Inr (Some off', hits), w2) \<Longrightarrow> hits \<noteq> [] \<Longrightarrow>
   left w2 path off' < left w path off"
  unfolding pages_run_out_def by blast

lemma page_step_progress:
  assumes pr: "pages_run_out E left"
    and st: "page_step E pid mpp off ml rc s = (st, s')"
  shows "st = Break \<or> (\<exists>ml'. st = Continue None ml' rc)
         \<or> (st = Continue (Some off) ml (rc + 1)
             \<and> left (world s') (history_path pid) off \<le> left (world s) (history_path pid) off)
         \<or> (\<exists>off' ml'. st = Continue (Some off') ml' rc
             \<and> left (world s') (history_path pid) off' < left (world s) (history_path pid) off)"
proof -
  let ?p = "history_path pid"
  obtain b s1 where p: "is_set E s = (b, s1)" by (cases "is_set E s")
  note l1 = run_out_poll [OF pr p, of ?p off]
  show ?thesis
  proof (cases b)
    case True
    with st p show ?thesis by (auto simp: page_step_def)
  next
    case False
    obtain res w2 where post: "dupr_post E ?p (page_data mpp off) (world s1) = (res, w2)"
      by (cases "dupr_post E ?p (page_data mpp off) (world s1)")
    note l2 = run_out_post [OF pr post, of ?p off]
    note sl2 = run_out_sleep [OF pr, of 2 w2 ?p off]
    show ?thesis
    proof (cases res)
      case (Inl exc)
      with st p False post l1 l2 sl2 show ?thesis
        by (auto simp: page_step_def call_def on_exception_eq)
    next
      case (Inr r)
      show ?thesis
      proof (cases "status_code r = 200")
        case ne: False
        obtain lres w3 where lg: "login_user E w2 = (lres, w3)" by (cases "login_user E w2")
        note l3 = run_out_login [OF pr lg, of ?p off]
        note sl3 = run_out_sleep [OF pr, of 2 w3 ?p off]
        from st p False post Inr ne lg l1 l2 l3 sl3 show ?thesis
          by (auto simp: page_step_def call_def on_status_def on_exception_eq Let_def
              split: if_splits sum.splits)
      next
        case ok: True
        show ?thesis
        proof (cases "json r")
          case (Inl exc)
          with st p False post Inr ok l1 l2 sl2 show ?thesis
            by (auto simp: page_step_def call_def on_ok_def on_exception_eq)
        next
          case jr: (Inr d)
          obtain pg w3 where hp: "handle_paging E d w2 = (pg, w3)"
            by (cases "handle_paging E d w2")
          note l3 = run_out_paging [OF pr hp, of ?p off]
          note sl3 = run_out_sleep [OF pr, of 2 w3 ?p off]
          show ?thesis
          proof (cases pg)
            case (Inl exc)
            with st p False post Inr ok jr hp l1 l2 l3 sl3 show ?thesis
              by (auto simp: page_step_def call_def on_ok_def on_exception_eq)
          next
            case pr2: (Inr oh)
            obtain off' hits where oh: "oh = (off', hits)" by (cases oh)
            show ?thesis
            proof (cases "hits = []")
              case True
              with st p False post Inr ok jr hp pr2 oh show ?thesis
                by (auto simp: page_step_def call_def on_ok_def Let_def)
            next
              case hne: False
              show ?thesis
              proof (cases off')
                case None
                with st p False post Inr ok jr hp pr2 oh hne show ?thesis
                  by (auto simp: page_step_def call_def on_ok_def Let_def)
              next
                case (Some k)
                from run_out_page [OF pr post [unfolded Inr] ok jr hp [unfolded pr2 oh Some] hne]
                have "left w3 ?p k < left (world s1) ?p off" .
                with l1 run_out_sleep [OF pr, of 1 w3 ?p k]
                have "left (sleep E 1 w3) ?p k < left (world s) ?p off" by simp
                with st p False post Inr ok jr hp pr2 oh hne Some show ?thesis
                  by (auto simp: page_step_def call_def on_ok_def Let_def)
              qed
            qed
          qed
        qed
      qed
    qed
  qed
qed

lemma paging_loop_terminates:
  assumes pr: "pages_run_out E left"
  shows "k = (case off of None \<Rightarrow> 0 | Some j \<Rightarrow> left (world s) (history_path pid) j)
               + (max_retries - rc) \<Longrightarrow>
         \<exists>res. paging_loop E pid mpp off ml rc s = Some res"
proof (induction k arbitrary: rc s off ml rule: less_induct)
  case (less k)
  show ?case
  proof (cases off)
    case None
    then show ?thesis by (simp add: paging_loop_None)
  next
    case (Some j)
    show ?thesis
    proof (cases "rc < max_retries")
      case False
      then have "max_retries \<le> rc" by simp
      from paging_loop_exhausted [OF this] show ?thesis by blast
    next
      case lt: True
      obtain st s1 where ps: "page_step E pid mpp j ml rc s = (st, s1)"
        by (cases "page_step E pid mpp j ml rc s")
      from page_step_progress [OF pr ps]
      consider "st = Break" | ml' where "st = Continue None ml' rc"
        | "st = Continue (Some j) ml (rc + 1)"
          "left (world s1) (history_path pid) j \<le> left (world s) (history_path pid) j"
        | off' ml' where "st = Continue (Some off') ml' rc"
          "left (world s1) (history_path pid) off' < left (world s) (history_path pid) j"
        by blast
      then show ?thesis
      proof cases
        case 1
        with paging_loop_Break [OF lt, of E pid mpp j ml s s1] ps Some show ?thesis by simp
      next
        case 2
        with paging_loop_Continue [OF lt, of E pid mpp j ml s None ml' rc s1] ps Some
        show ?thesis by (simp add: paging_loop_None)
      next
        case 3
        from 3(2) lt less.prems Some
        have "(case Some j of None \<Rightarrow> 0 | Some i \<Rightarrow> left (world s1) (history_path pid) i)
                + (max_retries - (rc + 1)) < k" by simp
        from less.IH [OF this refl, of ml] obtain res where
          "paging_loop E pid mpp (Some j) ml (rc + 1) s1 = Some res" by blast
        with 3(1) paging_loop_Continue [OF lt, of E pid mpp j ml s "Some j" ml "rc + 1" s1] ps Some
        show ?thesis by simp
      next
        case 4
        from 4(2) less.prems Some
        have "(case Some off' of None \<Rightarrow> 0 | Some i \<Rightarrow> left (world s1) (history_path pid) i)
                + (max_retries - rc) < k" by simp
        from less.IH [OF this refl, of ml'] obtain res where
          "paging_loop E pid mpp (Some off') ml' rc s1 = Some res" by blast
        with 4(1) paging_loop_Continue [OF lt, of E pid mpp j ml s "Some off'" ml' rc s1] ps Some
        show ?thesis by simp
      qed
    qed
  qed
qed

lemma history_loop_terminates:
  assumes pr: "pages_run_out E left"
  shows "\<exists>res. history_loop E mpp n idx pids mh s = Some res"
proof (induction pids arbitrary: idx mh s)
  case Nil
  show ?case by simp
next
  case (Cons pid rest)
  obtain b s1 where p: "is_set E s = (b, s1)" by (cases "is_set E s")
  show ?case
  proof (cases b)
    case True
    with p show ?thesis by simp
  next
    case False
    from paging_loop_terminates [OF pr refl, where rc = 0 and pid = pid and mpp = mpp
        and off = "Some 0" and ml = "[]" and s = "log (LogHistoryPlayer (idx + 1) n pid) s1"]
    obtain ml s2 where
      pl: "paging_loop E pid mpp (Some 0) [] 0 (log (LogHistoryPlayer (idx + 1) n pid) s1) = Some (ml, s2)"
      by auto
    show ?thesis
    proof (cases "ml = []")
      case True
      with Cons.IH [of "idx + 1" mh "log (LogNoHistory pid) s2"] p False pl show ?thesis by simp
    next
      case ne: False
      with Cons.IH [of "idx + 1" "AList.update pid ml mh" s2] p False pl show ?thesis by simp
    qed
  qed
qed

subsection \<open>The run as a whole\<close>

lemma raised_Some: "raised x = Some e \<longleftrightarrow> (\<exists>s'. x = Some (Inl e, s'))"
  by (cases x rule: raised.cases) auto

lemma enrich_length:
  "enrich E n idx ms acc s = (acc', s') \<Longrightarrow>
   length acc \<le> length acc' \<and> length acc' \<le> length acc + length ms"
proof (induction ms arbitrary: idx acc s)
  case Nil
  then show ?case by simp
next
  case (Cons member rest)
  obtain b s1 where p: "is_set E s = (b, s1)" by (cases "is_set E s")
  show ?case
  proof (cases b)
    case True
    with Cons.prems p show ?thesis by auto
  next
    case False
    obtain res s2 where tp: "try_profile E idx n (py_str E (dict_get member ''id'')) member s1 = (res, s2)"
      by (cases "try_profile E idx n (py_str E (dict_get member ''id'')) member s1")
    show ?thesis
    proof (cases res)
      case (Inl exc)
      with Cons.prems p False tp
      have "enrich E n (idx + 1) rest acc (log (LogProfileError (py_str E (dict_get member ''id'')) exc) s2) = (acc', s')"
        by simp
      from Cons.IH [OF this] show ?thesis by simp
    next
      case (Inr profile)
      with Cons.prems p False tp
      have "enrich E n (idx + 1) rest (acc @ [profile]) s2 = (acc', s')"
        by simp
      from Cons.IH [OF this] show ?thesis by simp
    qed
  qed
qed

lemma player_ids_of_error: "player_ids_of E ms = Inl e \<Longrightarrow> e \<noteq> MembersUnavailable"
  by (induction ms arbitrary: e) (auto simp: dict_item_def split: option.splits sum.splits)

lemma history_loop_keys:
  "history_loop E mpp n idx pids mh s = Some (mh', s') \<Longrightarrow>
   fst ` set mh' \<subseteq> fst ` set mh \<union> set pids"
proof (induction pids arbitrary: idx mh s)
  case Nil
  then show ?case by simp
next
  case (Cons pid rest)
  obtain b s1 where p: "is_set E s = (b, s1)" by (cases "is_set E s")
  show ?case
  proof (cases b)
    case True
    with Cons.prems p show ?thesis by auto
  next
    case False
    with Cons.prems p obtain ml s2 where
      pl: "paging_loop E pid mpp (Some 0) [] 0 (log (LogHistoryPlayer (idx + 1) n pid) s1) = Some (ml, s2)"
      by (auto split: option.splits)
    show ?thesis
    proof (cases "ml = []")
      case True
      with Cons.prems p False pl
      have "history_loop E mpp n (idx + 1) rest mh (log (LogNoHistory pid) s2) = Some (mh', s')"
        by simp
      from Cons.IH [OF this] show ?thesis by auto
    next
      case ne: False
      with Cons.prems p False pl
      have "history_loop E mpp n (idx + 1) rest (AList.update pid ml mh) s2 = Some (mh', s')"
        by simp
      from Cons.IH [OF this] show ?thesis by (auto simp: dom_update)
    qed
  qed
qed

lemma get_club_data_failed:
  assumes "get_members_by_club E club_id (world s) = (Inr (False, roster), w1)"
  shows "raised (get_club_data E club_id max_members max_matches mpp s) = Some MembersUnavailable"
  using assms by (simp add: get_club_data_def call_def)

lemma get_club_data_fetched:
  assumes "get_members_by_club E club_id (world s) = (Inr (True, roster), w1)"
    and "ms = slice_upto roster (or_zero max_members)"
    and "enrich E (length ms) 0 ms []
           (log LogFetchingProfiles
             \<lparr>world = w1, trace = trace s @ [Log (LogStart club_id), Log LogFetchingMembers,
                                              GetMembersByClub club_id]\<rparr>) = (profiles, s3)"
  shows "get_club_data E club_id max_members max_matches mpp s =
           (case player_ids_of E (slice_upto ms (or_zero max_matches)) of
              Inl e \<Rightarrow> Some (Inl e, log LogFetchingHistory s3)
            | Inr player_ids \<Rightarrow>
                (case history_loop E mpp (length player_ids) 0 player_ids []
                        (log LogFetchingHistory s3) of
                   None \<Rightarrow> None
                 | Some (mh, s4) \<Rightarrow>
                     Some (Inr \<lparr>club_info = make_club_info club_id ms mh, members = ms,
                                player_profiles = profiles, match_history = mh\<rparr>, s4)))"
  using assms(1,3) unfolding assms(2) by (simp add: get_club_data_def call_def Let_def)

subsection \<open>Enrichment of a prefix of the roster\<close>

lemma dict_get_update: "k \<noteq> k' \<Longrightarrow> dict_get (AList.update k v al) k' = dict_get al k'"
  by (simp add: dict_get_def update_conv')

lemma try_profile_id:
  assumes "try_profile E idx n player_id member s = (Inr profile, s')"
  shows "dict_get profile ''id'' = JStr player_id"
proof -
  from assms obtain status detail where
    m: "merge_detail (baseline_profile player_id member) detail = Inr profile"
    by (auto simp: try_profile_def Let_def split: prod.splits sum.splits)
  have b: "dict_get (baseline_profile player_id member) ''id'' = JStr player_id"
    by (simp add: baseline_profile_def dict_get_def)
  from m b show ?thesis
    by (auto simp: merge_detail_def dict_get_update split: if_splits sum.splits)
qed

lemma enrich_all:
  "enrich E n idx ms acc s = (acc', s') \<Longrightarrow> length acc' = length acc + length ms \<Longrightarrow>
   (\<exists>ps. acc' = acc @ ps \<and>
      map (\<lambda>p. dict_get p ''id'') ps = map (\<lambda>m. JStr (py_str E (dict_get m ''id''))) ms)
   \<and> enrich E n idx (ms @ ms2) acc s = enrich E n (idx + length ms) ms2 acc' s'"
proof (induction ms arbitrary: idx acc s)
  case Nil
  then show ?case by simp
next
  case (Cons member rest)
  let ?pid = "py_str E (dict_get member ''id'')"
  obtain b s1 where p: "is_set E s = (b, s1)" by (cases "is_set E s")
  show ?case
  proof (cases b)
    case True
    with Cons.prems p show ?thesis by auto
  next
    case False
    obtain res s2 where tp: "try_profile E idx n ?pid member s1 = (res, s2)"
      by (cases "try_profile E idx n ?pid member s1")
    show ?thesis
    proof (cases res)
      case (Inl exc)
      with Cons.prems(1) p False tp
      have "enrich E n (idx + 1) rest acc (log (LogProfileError ?pid exc) s2) = (acc', s')"
        by simp
      from enrich_length [OF this] Cons.prems(2) show ?thesis by simp
    next
      case (Inr profile)
      with Cons.prems(1) p False tp
      have e: "enrich E n (idx + 1) rest (acc @ [profile]) s2 = (acc', s')"
        by simp
      from Cons.prems(2) have l: "length acc' = length (acc @ [profile]) + length rest"
        by simp
      from Cons.IH [OF e l] obtain ps where
        ps: "acc' = (acc @ [profile]) @ ps"
        and ids: "map (\<lambda>p. dict_get p ''id'') ps = map (\<lambda>m. JStr (py_str E (dict_get m ''id''))) rest"
        and app: "enrich E n (idx + 1) (rest @ ms2) (acc @ [profile]) s2
                    = enrich E n (idx + 1 + length rest) ms2 acc' s'"
        by blast
      from tp Inr have "dict_get profile ''id'' = JStr ?pid"
        by (simp add: try_profile_id)
      with ps ids have "acc' = acc @ (profile # ps) \<and>
          map (\<lambda>p. dict_get p ''id'') (profile # ps)
            = map (\<lambda>m. JStr (py_str E (dict_get m ''id''))) (member # rest)"
        by simp
      then have first: "\<exists>ps. acc' = acc @ ps \<and>
          map (\<lambda>p. dict_get p ''id'') ps
            = map (\<lambda>m. JStr (py_str E (dict_get m ''id''))) (member # rest)"
        by blast
      have "enrich E n idx ((member # rest) @ ms2) acc s
              = enrich E n (idx + 1) (rest @ ms2) (acc @ [profile]) s2"
        using p False tp Inr by simp
      with app have "enrich E n idx ((member # rest) @ ms2) acc s
              = enrich E n (idx + length (member # rest)) ms2 acc' s'"
        by (simp add: add.commute add.left_commute)
      with first show ?thesis by blast
    qed
  qed
qed

lemma enrich_ids_subseq:
  "enrich E n idx ms acc s = (acc', s') \<Longrightarrow>
   \<exists>ps. acc' = acc @ ps \<and>
     subseq (map (\<lambda>p. dict_get p ''id'') ps) (map (\<lambda>m. JStr (py_str E (dict_get m ''id''))) ms)"
proof (induction ms arbitrary: idx acc s)
  case Nil
  then show ?case by simp
next
  case (Cons member rest)
  let ?pid = "py_str E (dict_get member ''id'')"
  obtain b s1 where p: "is_set E s = (b, s1)" by (cases "is_set E s")
  show ?case
  proof (cases b)
    case True
    with Cons.prems p show ?thesis by auto
  next
    case False
    obtain res s2 where tp: "try_profile E idx n ?pid member s1 = (res, s2)"
      by (cases "try_profile E idx n ?pid member s1")
    show ?thesis
    proof (cases res)
      case (Inl exc)
      with Cons.prems p False tp
      have "enrich E n (idx + 1) rest acc (log (LogProfileError ?pid exc) s2) = (acc', s')"
        by simp
      from Cons.IH [OF this] show ?thesis by auto
    next
      case (Inr profile)
      with Cons.prems p False tp
      have "enrich E n (idx + 1) rest (acc @ [profile]) s2 = (acc', s')"
        by simp
      from Cons.IH [OF this] obtain ps where
        ps: "acc' = (acc @ [profile]) @ ps"
        and sub: "subseq (map (\<lambda>p. dict_get p ''id'') ps)
                    (map (\<lambda>m. JStr (py_str E (dict_get m ''id''))) rest)"
        by blast
      from tp Inr have "dict_get profile ''id'' = JStr ?pid"
        by (simp add: try_profile_id)
      with ps sub have "acc' = acc @ (profile # ps) \<and>
          subseq (map (\<lambda>p. dict_get p ''id'') (profile # ps))
            (map (\<lambda>m. JStr (py_str E (dict_get m ''id''))) (member # rest))"
        by simp
      then show ?thesis by blast
    qed
  qed
qed

subsection \<open>Keys of the history\<close>

lemma history_loop_distinct:
  "history_loop E mpp n idx pids mh s = Some (mh', s') \<Longrightarrow>
   distinct (map fst mh) \<Longrightarrow> distinct (map fst mh')"
proof (induction pids arbitrary: idx mh s)
  case Nil
  then show ?case by simp
next
  case (Cons pid rest)
  obtain b s1 where p: "is_set E s = (b, s1)" by (cases "is_set E s")
  show ?case
  proof (cases b)
    case True
    with Cons.prems p show ?thesis by simp
  next
    case False
    with Cons.prems p obtain ml s2 where
      pl: "paging_loop E pid mpp (Some 0) [] 0 (log (LogHistoryPlayer (idx + 1) n pid) s1) = Some (ml, s2)"
      by (auto split: option.splits)
    show ?thesis
    proof (cases "ml = []")
      case True
      with Cons.prems p False pl
      have "history_loop E mpp n (idx + 1) rest mh (log (LogNoHistory pid) s2) = Some (mh', s')"
        by simp
      from Cons.IH [OF this Cons.prems(2)] show ?thesis .
    next
      case ne: False
      with Cons.prems p False pl
      have h: "history_loop E mpp n (idx + 1) rest (AList.update pid ml mh) s2 = Some (mh', s')"
        by simp
      from Cons.IH [OF h distinct_update [OF Cons.prems(2)]] show ?thesis .
    qed
  qed
qed

subsection \<open>The simulated clients\<close>

lemma pages_run_out_sim_env:
  "pages_run_out (sim_env ok roster) (\<lambda>w path off. length (sim_posts w))"
  by (auto simp: pages_run_out_def sim_env_def is_set_def sim_poll_def sim_post_def
      split: list.splits prod.splits)

lemma sim_str_numerals:
  "sim_str (JInt 1205) = ''1205'' \<and> sim_str (JInt (- 7)) = ''-7'' \<and> sim_str (JInt 0) = ''0''"
  by code_simp

lemma pages_run_out_sim_paged:
  "pages_run_out (sim_paged ok roster) (\<lambda>w path off. if off = 0 then 1 else 0)"
  by (auto simp: pages_run_out_def sim_paged_def sim_env_def is_set_def sim_poll_def paged_post_def
      offset_of_def page_data_def ok_response_def page_def
      split: list.splits prod.splits if_splits)

lemma never_set_sim_free: "never_set (sim_free ok roster)"
  by (simp add: never_set_def is_set_def sim_free_def sim_env_def)

lemma request_raises_sim_down: "request_raises (sim_down ok roster) pid"
  by (simp add: request_raises_def sim_down_def sim_free_def sim_env_def)

section \<open>Member enumeration\<close>

text \<open>
  Claim C3: for every integer \<open>max_members \<le> 0\<close> and every successfully fetched roster,
  member enumeration yields an empty member sequence. Line 64 slices the roster with
  \<^verbatim>\<open>members[: max_members or 0]\<close>, and a negative bound of a Python slice counts from
  the end: with \<open>max_members = -1\<close> and a roster of two members, the first member is kept.
\<close>

theorem negative_cap_keeps_members:
  "map_option members
     (returned (get_club_data (sim_env True [member_of ''1'', member_of ''2'']) ''c'' (- 1) 0 10
        (sim_start [] [] [])))
   = Some [member_of ''1'']"
  by code_simp

text \<open>
  Claim C10: when the truncated member sequence is empty, the pipeline returns without
  raising; the club name is the empty string, the counts are 0 and the three collections
  are empty.
\<close>

theorem empty_members_result:
  assumes "get_members_by_club E club_id (world s) = (Inr (True, roster), w1)"
    and "slice_upto roster (or_zero max_members) = []"
  shows "get_club_data E club_id max_members max_matches matches_per_player s =
           Some (Inr \<lparr>club_info = [(''id'', JStr club_id), (''name'', JStr []),
                                    (''total_members'', JInt 0), (''scraped_matches'', JInt 0)],
                      members = [], player_profiles = [], match_history = []\<rparr>,
                 \<lparr>world = w1,
                  trace = trace s @ [Log (LogStart club_id), Log LogFetchingMembers,
                                     GetMembersByClub club_id, Log LogFetchingProfiles,
                                     Log LogFetchingHistory]\<rparr>)"
  using assms
  by (simp add: get_club_data_def call_def make_club_info_def slice_upto_def log_def emit_def)

theorem empty_members_result_witness:
  "get_club_data (sim_env True [member_of ''1'', member_of ''2'']) ''c'' 0 5 10 (sim_start [] [] []) =
     Some (Inr \<lparr>club_info = [(''id'', JStr ''c''), (''name'', JStr []),
                              (''total_members'', JInt 0), (''scraped_matches'', JInt 0)],
                members = [], player_profiles = [], match_history = []\<rparr>,
           \<lparr>world = \<lparr>sim_details = [], sim_posts = [], sim_polls = []\<rparr>,
            trace = [Log (LogStart ''c''), Log LogFetchingMembers,
                     GetMembersByClub ''c'', Log LogFetchingProfiles,
                     Log LogFetchingHistory]\<rparr>)"
  using empty_members_result [of "sim_env True [member_of ''1'', member_of ''2'']" "''c''"
      "sim_start [] [] []" "[member_of ''1'', member_of ''2'']"
      "\<lparr>sim_details = [], sim_posts = [], sim_polls = []\<rparr>" 0 5 10]
  by (simp add: sim_env_def sim_start_def slice_upto_def or_zero_def)

section \<open>The stored match history\<close>

text \<open>
  Claim C2: in the result of every run, a player id is a key of \<open>match_history\<close> only
  with a non-empty list, which is what the paging loop of that player accumulated; an
  empty accumulation is never stored.
\<close>

theorem history_entries_nonempty:
  assumes "returned (get_club_data E club_id max_members max_matches matches_per_player s) = Some r"
    and "(pid, match_list) \<in> set (match_history r)"
  shows "match_list \<noteq> [] \<and>
         (\<exists>s1 s2. paging_loop E pid matches_per_player (Some 0) [] 0 s1 = Some (match_list, s2))"
proof -
  from assms(1) obtain s' where
    "get_club_data E club_id max_members max_matches matches_per_player s = Some (Inr r, s')"
    by (auto simp: returned_Some)
  from get_club_data_returned [OF this] obtain n ids s3 where
    "history_loop E matches_per_player n 0 ids [] s3 = Some (match_history r, s')" by blast
  from history_loop_entries [OF this] assms(2)
  show ?thesis by (fastforce simp: fetched_def)
qed

theorem history_entries_nonempty_witness:
  "(''2'', [JInt 1, JInt 2]) \<in> set (match_history (the (returned
       (get_club_data (sim_env True [member_of ''1'', member_of ''2'']) ''c'' 2 2 10
          (sim_start [] [status_response 500, ok_response (Some 20) [JInt 1], ok_response None [JInt 2]] [])))))
   \<and> [JInt 1, JInt 2] \<noteq> []
   \<and> (\<exists>s1 s2. paging_loop (sim_env True [member_of ''1'', member_of ''2'']) ''2'' 10 (Some 0) [] 0 s1
                 = Some ([JInt 1, JInt 2], s2))"
proof -
  let ?run = "get_club_data (sim_env True [member_of ''1'', member_of ''2'']) ''c'' 2 2 10
          (sim_start [] [status_response 500, ok_response (Some 20) [JInt 1], ok_response None [JInt 2]] [])"
  have mh: "map_option match_history (returned ?run) = Some [(''2'', [JInt 1, JInt 2])]"
    by code_simp
  then obtain r where r: "returned ?run = Some r" and m: "match_history r = [(''2'', [JInt 1, JInt 2])]"
    by auto
  from m have "(''2'', [JInt 1, JInt 2]) \<in> set (match_history r)" by simp
  from history_entries_nonempty [OF r this] r this show ?thesis by simp
qed

section \<open>Retry and reauthentication\<close>

text \<open>
  Claim C4: when the paging endpoint of a player answers 403 twice and then 200 with a
  page whose hits are empty, the fetch of that player reauthenticates exactly twice,
  posts the request three times with offset 0, and stores nothing for the player: the
  history is passed on unchanged, and a run over this player alone ends with an empty
  history.
\<close>

theorem reauth_twice_then_empty:
  assumes ns: "never_set E"
    and p1: "dupr_post E (history_path pid) (page_data mpp 0) w0 = (Inr r1, w1)"
    and c1: "status_code r1 = 403"
    and l1: "login_user E w1 = (Inr (), w2)"
    and p2: "dupr_post E (history_path pid) (page_data mpp 0) w2 = (Inr r2, w3)"
    and c2: "status_code r2 = 403"
    and l2: "login_user E w3 = (Inr (), w4)"
    and p3: "dupr_post E (history_path pid) (page_data mpp 0) w4 = (Inr r3, w5)"
    and c3: "status_code r3 = 200"
    and j3: "json r3 = Inr d"
    and h3: "handle_paging E d w5 = (Inr (off', []), w6)"
    and evs: "evs = [DuprPost (history_path pid) (page_data mpp 0),
                     Log (LogHistoryStatus 403), Log LogRefreshToken, LoginUser,
                     DuprPost (history_path pid) (page_data mpp 0),
                     Log (LogHistoryStatus 403), Log LogRefreshToken, LoginUser,
                     DuprPost (history_path pid) (page_data mpp 0),
                     HandlePaging d, Log LogNoMoreMatches]"
  shows "paging_loop E pid mpp (Some 0) [] 0 \<lparr>world = w0, trace = tr\<rparr>
           = Some ([], \<lparr>world = w6, trace = tr @ evs\<rparr>)
         \<and> logins evs = 2
         \<and> posts evs = replicate 3 (history_path pid, page_data mpp 0)
         \<and> history_loop E mpp n idx (pid # rest) mh \<lparr>world = w0, trace = tr\<rparr>
           = history_loop E mpp n (idx + 1) rest mh
               \<lparr>world = w6,
                trace = tr @ [Log (LogHistoryPlayer (idx + 1) n pid)] @ evs @ [Log (LogNoHistory pid)]\<rparr>
         \<and> history_loop E mpp n idx [pid] [] \<lparr>world = w0, trace = tr\<rparr>
           = Some ([], \<lparr>world = w6,
                trace = tr @ [Log (LogHistoryPlayer (idx + 1) n pid)] @ evs @ [Log (LogNoHistory pid)]\<rparr>)"
proof -
  have loop: "paging_loop E pid mpp (Some 0) [] 0 \<lparr>world = w0, trace = t\<rparr>
           = Some ([], \<lparr>world = w6, trace = t @ evs\<rparr>)" for t
  proof -
    let ?s0 = "\<lparr>world = w0, trace = t\<rparr>"
    have s1: "page_step E pid mpp 0 [] 0 ?s0 = (Continue (Some 0) [] 1,
        \<lparr>world = w2, trace = t @ [DuprPost (history_path pid) (page_data mpp 0),
                     Log (LogHistoryStatus 403), Log LogRefreshToken, LoginUser]\<rparr>)"
      (is "_ = (_, ?s1)")
      using page_step_403 [OF never_setD [OF ns], of pid mpp 0 ?s0 r1 w1 w2 "[]" 0] p1 c1 l1
      by simp
    have s2: "page_step E pid mpp 0 [] 1 ?s1 = (Continue (Some 0) [] 2,
        \<lparr>world = w4, trace = trace ?s1 @ [DuprPost (history_path pid) (page_data mpp 0),
                     Log (LogHistoryStatus 403), Log LogRefreshToken, LoginUser]\<rparr>)"
      (is "_ = (_, ?s2)")
      using page_step_403 [OF never_setD [OF ns], of pid mpp 0 ?s1 r2 w3 w4 "[]" 1] p2 c2 l2
      by simp
    have s3: "page_step E pid mpp 0 [] 2 ?s2 = (Break,
        \<lparr>world = w6, trace = trace ?s2 @ [DuprPost (history_path pid) (page_data mpp 0),
                     HandlePaging d, Log LogNoMoreMatches]\<rparr>)"
      using page_step_ok_empty [OF never_setD [OF ns], of pid mpp 0 ?s2 r3 w5 d off' w6 "[]" 2]
        p3 c3 j3 h3
      by simp
    have "paging_loop E pid mpp (Some 0) [] 0 ?s0 = paging_loop E pid mpp (Some 0) [] 1 ?s1"
      by (rule paging_loop_Continue [OF _ s1]) (simp add: max_retries_def)
    also have "\<dots> = paging_loop E pid mpp (Some 0) [] 2 ?s2"
      by (rule paging_loop_Continue [OF _ s2]) (simp add: max_retries_def)
    also have "\<dots> = Some ([], \<lparr>world = w6, trace = trace ?s2 @ [DuprPost (history_path pid) (page_data mpp 0),
                     HandlePaging d, Log LogNoMoreMatches]\<rparr>)"
      by (rule paging_loop_Break [OF _ s3]) (simp add: max_retries_def)
    finally show ?thesis by (simp add: evs)
  qed
  have hist: "history_loop E mpp n idx (pid # rest') mh' \<lparr>world = w0, trace = tr\<rparr>
           = history_loop E mpp n (idx + 1) rest' mh'
               \<lparr>world = w6,
                trace = tr @ [Log (LogHistoryPlayer (idx + 1) n pid)] @ evs @ [Log (LogNoHistory pid)]\<rparr>"
    for rest' mh'
    using loop [of "tr @ [Log (LogHistoryPlayer (idx + 1) n pid)]"]
    by (simp add: never_setD [OF ns] log_def emit_def)
  have single: "history_loop E mpp n idx [pid] [] \<lparr>world = w0, trace = tr\<rparr>
           = Some ([], \<lparr>world = w6,
                trace = tr @ [Log (LogHistoryPlayer (idx + 1) n pid)] @ evs @ [Log (LogNoHistory pid)]\<rparr>)"
    by (subst hist) simp
  have l: "logins evs = 2"
    by (simp add: evs)
  have p: "posts evs = replicate 3 (history_path pid, page_data mpp 0)"
    by (simp add: evs numeral_3_eq_3)
  show ?thesis
    by (intro conjI loop l p hist single)
qed

theorem reauth_twice_then_empty_witness:
  "history_loop (sim_free True [member_of ''7'']) 10 1 0 [''7''] []
     (sim_start [] [status_response 403, status_response 403, ok_response None []] [])
   = Some ([], \<lparr>world = \<lparr>sim_details = [], sim_posts = [], sim_polls = []\<rparr>,
                trace = [Log (LogHistoryPlayer 1 1 ''7''),
                         DuprPost (history_path ''7'') (page_data 10 0),
                         Log (LogHistoryStatus 403), Log LogRefreshToken, LoginUser,
                         DuprPost (history_path ''7'') (page_data 10 0),
                         Log (LogHistoryStatus 403), Log LogRefreshToken, LoginUser,
                         DuprPost (history_path ''7'') (page_data 10 0),
                         HandlePaging (page None []), Log LogNoMoreMatches,
                         Log (LogNoHistory ''7'')]\<rparr>)"
  using reauth_twice_then_empty [
      where E = "sim_free True [member_of ''7'']" and pid = "''7''" and mpp = 10
        and ?w0.0 = "\<lparr>sim_details = [], sim_posts = [status_response 403, status_response 403, ok_response None []], sim_polls = []\<rparr>"
        and ?r1.0 = "\<lparr>status_code = 403, json = Inl (ClientExn ''no body'')\<rparr>"
        and ?w1.0 = "\<lparr>sim_details = [], sim_posts = [status_response 403, ok_response None []], sim_polls = []\<rparr>"
        and ?w2.0 = "\<lparr>sim_details = [], sim_posts = [status_response 403, ok_response None []], sim_polls = []\<rparr>"
        and ?r2.0 = "\<lparr>status_code = 403, json = Inl (ClientExn ''no body'')\<rparr>"
        and ?w3.0 = "\<lparr>sim_details = [], sim_posts = [ok_response None []], sim_polls = []\<rparr>"
        and ?w4.0 = "\<lparr>sim_details = [], sim_posts = [ok_response None []], sim_polls = []\<rparr>"
        and ?r3.0 = "\<lparr>status_code = 200, json = Inr (page None [])\<rparr>"
        and ?w5.0 = "\<lparr>sim_details = [], sim_posts = [], sim_polls = []\<rparr>"
        and d = "page None []" and off' = None
        and ?w6.0 = "\<lparr>sim_details = [], sim_posts = [], sim_polls = []\<rparr>"
        and tr = "[]" and n = 1 and idx = 0 and rest = "[]" and mh = "[]", OF never_set_sim_free _ _ _ _ _ _ _ _ _ _ refl]
  by (simp add: sim_free_def sim_env_def sim_post_def sim_start_def status_response_def
      ok_response_def page_def)

text \<open>
  Claim C5: when every request for a player ends in a transport or decode exception,
  the paging loop of the player returns (with nothing accumulated) after at most
  \<open>max_retries = 3\<close> requests, all of them with offset 0; without cancellation they
  are exactly three.
\<close>

theorem raising_requests_bounded:
  assumes "request_raises E pid"
  shows "\<exists>s' k. paging_loop E pid matches_per_player (Some 0) [] 0 s = Some ([], s')
           \<and> posts (trace s') =
               posts (trace s) @ replicate k (history_path pid, page_data matches_per_player 0)
           \<and> logins (trace s') = logins (trace s)
           \<and> k \<le> max_retries \<and> max_retries = 3
           \<and> (never_set E \<longrightarrow> k = 3)"
  using paging_loop_raises [OF assms refl, where rc = 0 and off = 0 and ml = "[]" and s = s
      and mpp = matches_per_player]
  by (simp add: max_retries_def)

theorem raising_requests_bounded_witness:
  "\<exists>s'. paging_loop (sim_down True []) ''7'' 10 (Some 0) [] 0 (sim_start [] [] []) = Some ([], s')
         \<and> posts (trace s') = replicate 3 (history_path ''7'', page_data 10 0)
         \<and> logins (trace s') = 0"
proof -
  have n: "never_set (sim_down True [])"
    by (simp add: never_set_def is_set_def sim_down_def sim_free_def sim_env_def)
  from raising_requests_bounded [OF request_raises_sim_down, of True "[]" "''7''" 10 "sim_start [] [] []"] n
  show ?thesis by (auto simp: sim_start_def)
qed

section \<open>Paging\<close>

text \<open>
  Claim C6: on a response with status 200, in any pass that the cancellation flag lets
  through and that is within the retry budget, empty decoded hits end the loop of the
  player; otherwise the hits are appended, the offset becomes the decoded next offset and
  the retry count is unchanged, and the loop ends when the next offset is null. This
  rule holds for every environment and stands by itself. In particular, an endpoint
  that serves hits at offset 0 with next offset 20 and then hits with a null next offset
  leaves both batches accumulated, after two posts, no reauthentication and no retry.
\<close>

theorem ok_pages_accumulate:
  "(is_set E s = (False, s1) \<and> rc < max_retries \<and>
    dupr_post E (history_path pid) (page_data mpp off) (world s1) = (Inr r, w1) \<and>
    status_code r = 200 \<and> json r = Inr d \<and>
    handle_paging E d w1 = (Inr (off', hits), w2) \<longrightarrow>
      (hits = [] \<longrightarrow>
         paging_loop E pid mpp (Some off) ml rc s =
           Some (ml, \<lparr>world = w2,
                      trace = trace s @ [DuprPost (history_path pid) (page_data mpp off),
                                         HandlePaging d, Log LogNoMoreMatches]\<rparr>))
      \<and> (hits \<noteq> [] \<longrightarrow>
         paging_loop E pid mpp (Some off) ml rc s =
           paging_loop E pid mpp off' (ml @ hits) rc
             \<lparr>world = sleep E 1 w2,
              trace = trace s @ [DuprPost (history_path pid) (page_data mpp off),
                                 HandlePaging d, Log (LogGotMatches (length hits)), Sleep 1]\<rparr>)
      \<and> (hits \<noteq> [] \<and> off' = None \<longrightarrow>
         paging_loop E pid mpp (Some off) ml rc s =
           Some (ml @ hits,
             \<lparr>world = sleep E 1 w2,
              trace = trace s @ [DuprPost (history_path pid) (page_data mpp off),
                                 HandlePaging d, Log (LogGotMatches (length hits)), Sleep 1]\<rparr>)))
   \<and> (is_set E \<lparr>world = v0, trace = tr\<rparr> = (False, sa) \<and>
      dupr_post E (history_path pid) (page_data mpp 0) (world sa) = (Inr r1, v1) \<and>
      status_code r1 = 200 \<and> json r1 = Inr d1 \<and>
      handle_paging E d1 v1 = (Inr (Some 20, hits1), v2) \<and> hits1 \<noteq> [] \<and>
      is_set E \<lparr>world = sleep E 1 v2,
                trace = tr @ [DuprPost (history_path pid) (page_data mpp 0), HandlePaging d1,
                              Log (LogGotMatches (length hits1)), Sleep 1]\<rparr> = (False, sb) \<and>
      dupr_post E (history_path pid) (page_data mpp 20) (world sb) = (Inr r2, v3) \<and>
      status_code r2 = 200 \<and> json r2 = Inr d2 \<and>
      handle_paging E d2 v3 = (Inr (None, hits2), v4) \<and> hits2 \<noteq> [] \<longrightarrow>
        paging_loop E pid mpp (Some 0) [] 0 \<lparr>world = v0, trace = tr\<rparr> =
          Some (hits1 @ hits2,
            \<lparr>world = sleep E 1 v4,
             trace = tr @ [DuprPost (history_path pid) (page_data mpp 0), HandlePaging d1,
                           Log (LogGotMatches (length hits1)), Sleep 1,
                           DuprPost (history_path pid) (page_data mpp 20), HandlePaging d2,
                           Log (LogGotMatches (length hits2)), Sleep 1]\<rparr>)
        \<and> logins [DuprPost (history_path pid) (page_data mpp 0), HandlePaging d1,
                   Log (LogGotMatches (length hits1)), Sleep 1,
                   DuprPost (history_path pid) (page_data mpp 20), HandlePaging d2,
                   Log (LogGotMatches (length hits2)), Sleep 1] = 0
        \<and> posts [DuprPost (history_path pid) (page_data mpp 0), HandlePaging d1,
                  Log (LogGotMatches (length hits1)), Sleep 1,
                  DuprPost (history_path pid) (page_data mpp 20), HandlePaging d2,
                  Log (LogGotMatches (length hits2)), Sleep 1]
            = [(history_path pid, page_data mpp 0), (history_path pid, page_data mpp 20)])"
proof (intro conjI impI; (elim conjE)?)
  assume p: "is_set E s = (False, s1)" and rc: "rc < max_retries"
    and po: "dupr_post E (history_path pid) (page_data mpp off) (world s1) = (Inr r, w1)"
    and c: "status_code r = 200" and j: "json r = Inr d"
    and h: "handle_paging E d w1 = (Inr (off', hits), w2)"
    and e: "hits = []"
  from page_step_ok_empty [OF p po c j h [unfolded e]]
  show "paging_loop E pid mpp (Some off) ml rc s =
           Some (ml, \<lparr>world = w2,
                      trace = trace s @ [DuprPost (history_path pid) (page_data mpp off),
                                         HandlePaging d, Log LogNoMoreMatches]\<rparr>)"
    by (rule paging_loop_Break [OF rc])
next
  assume p: "is_set E s = (False, s1)" and rc: "rc < max_retries"
    and po: "dupr_post E (history_path pid) (page_data mpp off) (world s1) = (Inr r, w1)"
    and c: "status_code r = 200" and j: "json r = Inr d"
    and h: "handle_paging E d w1 = (Inr (off', hits), w2)"
    and ne: "hits \<noteq> []"
  from page_step_ok_hits [OF p po c j h ne]
  show "paging_loop E pid mpp (Some off) ml rc s =
           paging_loop E pid mpp off' (ml @ hits) rc
             \<lparr>world = sleep E 1 w2,
              trace = trace s @ [DuprPost (history_path pid) (page_data mpp off),
                                 HandlePaging d, Log (LogGotMatches (length hits)), Sleep 1]\<rparr>"
    by (rule paging_loop_Continue [OF rc])
next
  assume p: "is_set E s = (False, s1)" and rc: "rc < max_retries"
    and po: "dupr_post E (history_path pid) (page_data mpp off) (world s1) = (Inr r, w1)"
    and c: "status_code r = 200" and j: "json r = Inr d"
    and h: "handle_paging E d w1 = (Inr (off', hits), w2)"
    and ne: "hits \<noteq> []" and n: "off' = None"
  from paging_loop_Continue [OF rc page_step_ok_hits [OF p po c j h ne]]
  show "paging_loop E pid mpp (Some off) ml rc s =
           Some (ml @ hits,
             \<lparr>world = sleep E 1 w2,
              trace = trace s @ [DuprPost (history_path pid) (page_data mpp off),
                                 HandlePaging d, Log (LogGotMatches (length hits)), Sleep 1]\<rparr>)"
    by (simp add: n paging_loop_None)
next
  assume pa: "is_set E \<lparr>world = v0, trace = tr\<rparr> = (False, sa)"
    and p1: "dupr_post E (history_path pid) (page_data mpp 0) (world sa) = (Inr r1, v1)"
    and c1: "status_code r1 = 200" and j1: "json r1 = Inr d1"
    and h1: "handle_paging E d1 v1 = (Inr (Some 20, hits1), v2)" and n1: "hits1 \<noteq> []"
    and pb: "is_set E \<lparr>world = sleep E 1 v2,
                trace = tr @ [DuprPost (history_path pid) (page_data mpp 0), HandlePaging d1,
                              Log (LogGotMatches (length hits1)), Sleep 1]\<rparr> = (False, sb)"
    and p2: "dupr_post E (history_path pid) (page_data mpp 20) (world sb) = (Inr r2, v3)"
    and c2: "status_code r2 = 200" and j2: "json r2 = Inr d2"
    and h2: "handle_paging E d2 v3 = (Inr (None, hits2), v4)" and n2: "hits2 \<noteq> []"
  let ?a = "\<lparr>world = v0, trace = tr\<rparr>"
  let ?b = "\<lparr>world = sleep E 1 v2,
                trace = tr @ [DuprPost (history_path pid) (page_data mpp 0), HandlePaging d1,
                              Log (LogGotMatches (length hits1)), Sleep 1]\<rparr>"
  have z: "(0::nat) < max_retries" by (simp add: max_retries_def)
  have st1: "page_step E pid mpp 0 [] 0 ?a = (Continue (Some 20) ([] @ hits1) 0, ?b)"
    using page_step_ok_hits [OF pa p1 c1 j1 h1 n1, of "[]" 0] by simp
  note st2 = page_step_ok_hits [OF pb p2 c2 j2 h2 n2, of hits1 0]
  have "paging_loop E pid mpp (Some 0) [] 0 ?a = paging_loop E pid mpp (Some 20) ([] @ hits1) 0 ?b"
    by (rule paging_loop_Continue [OF z st1])
  also have "\<dots> = paging_loop E pid mpp None (hits1 @ hits2) 0
      \<lparr>world = sleep E 1 v4,
       trace = trace ?b @ [DuprPost (history_path pid) (page_data mpp 20), HandlePaging d2,
                           Log (LogGotMatches (length hits2)), Sleep 1]\<rparr>"
    using paging_loop_Continue [OF z st2] by simp
  finally show "paging_loop E pid mpp (Some 0) [] 0 \<lparr>world = v0, trace = tr\<rparr> =
          Some (hits1 @ hits2,
            \<lparr>world = sleep E 1 v4,
             trace = tr @ [DuprPost (history_path pid) (page_data mpp 0), HandlePaging d1,
                           Log (LogGotMatches (length hits1)), Sleep 1,
                           DuprPost (history_path pid) (page_data mpp 20), HandlePaging d2,
                           Log (LogGotMatches (length hits2)), Sleep 1]\<rparr>)"
    by (simp add: paging_loop_None)
next
  show "logins [DuprPost (history_path pid) (page_data mpp 0), HandlePaging d1,
                   Log (LogGotMatches (length hits1)), Sleep 1,
                   DuprPost (history_path pid) (page_data mpp 20), HandlePaging d2,
                   Log (LogGotMatches (length hits2)), Sleep 1] = 0"
    by simp
next
  show "posts [DuprPost (history_path pid) (page_data mpp 0), HandlePaging d1,
                  Log (LogGotMatches (length hits1)), Sleep 1,
                  DuprPost (history_path pid) (page_data mpp 20), HandlePaging d2,
                  Log (LogGotMatches (length hits2)), Sleep 1]
            = [(history_path pid, page_data mpp 0), (history_path pid, page_data mpp 20)]"
    by simp
qed


theorem ok_pages_accumulate_witness:
  "paging_loop (sim_env True []) ''7'' 20 (Some 0) [] 0
     (sim_start [] [ok_response (Some 20) [JInt 1, JInt 2], ok_response None [JInt 3]] [False, False])
   = Some ([JInt 1, JInt 2, JInt 3],
           \<lparr>world = \<lparr>sim_details = [], sim_posts = [], sim_polls = []\<rparr>,
            trace = [DuprPost (history_path ''7'') (page_data 20 0),
                     HandlePaging (page (Some 20) [JInt 1, JInt 2]),
                     Log (LogGotMatches 2), Sleep 1,
                     DuprPost (history_path ''7'') (page_data 20 20),
                     HandlePaging (page None [JInt 3]),
                     Log (LogGotMatches 1), Sleep 1]\<rparr>)
   \<and> paging_loop (sim_env True []) ''7'' 20 (Some 40) [JInt 1] 2
       \<lparr>world = \<lparr>sim_details = [], sim_posts = [ok_response (Some 60) []], sim_polls = [False]\<rparr>,
        trace = []\<rparr>
     = Some ([JInt 1],
           \<lparr>world = \<lparr>sim_details = [], sim_posts = [], sim_polls = []\<rparr>,
            trace = [DuprPost (history_path ''7'') (page_data 20 40),
                     HandlePaging (page (Some 60) []), Log LogNoMoreMatches]\<rparr>)
   \<and> paging_loop (sim_env True []) ''7'' 20 (Some 40) [JInt 1] 2
       \<lparr>world = \<lparr>sim_details = [], sim_posts = [ok_response None [JInt 9]], sim_polls = [False]\<rparr>,
        trace = []\<rparr>
     = Some ([JInt 1, JInt 9],
           \<lparr>world = \<lparr>sim_details = [], sim_posts = [], sim_polls = []\<rparr>,
            trace = [DuprPost (history_path ''7'') (page_data 20 40),
                     HandlePaging (page None [JInt 9]), Log (LogGotMatches 1), Sleep 1]\<rparr>)"
proof -
  let ?E = "sim_env True []"
  let ?w = "\<lambda>ps bs. \<lparr>sim_details = [], sim_posts = ps, sim_polls = bs\<rparr>"
  have two: "(2::nat) < max_retries" by (simp add: max_retries_def)
  have scenario: "paging_loop ?E ''7'' 20 (Some 0) [] 0
     (sim_start [] [ok_response (Some 20) [JInt 1, JInt 2], ok_response None [JInt 3]] [False, False])
   = Some ([JInt 1, JInt 2, JInt 3],
           \<lparr>world = ?w [] [],
            trace = [DuprPost (history_path ''7'') (page_data 20 0),
                     HandlePaging (page (Some 20) [JInt 1, JInt 2]),
                     Log (LogGotMatches 2), Sleep 1,
                     DuprPost (history_path ''7'') (page_data 20 20),
                     HandlePaging (page None [JInt 3]),
                     Log (LogGotMatches 1), Sleep 1]\<rparr>)"
    using ok_pages_accumulate [where E = ?E and pid = "''7''" and mpp = 20
      and ?v0.0 = "?w [ok_response (Some 20) [JInt 1, JInt 2], ok_response None [JInt 3]] [False, False]"
      and tr = "[]"
      and sa = "\<lparr>world = ?w [ok_response (Some 20) [JInt 1, JInt 2], ok_response None [JInt 3]] [False],
                trace = []\<rparr>"
      and ?r1.0 = "\<lparr>status_code = 200, json = Inr (page (Some 20) [JInt 1, JInt 2])\<rparr>"
      and ?v1.0 = "?w [ok_response None [JInt 3]] [False]"
      and ?d1.0 = "page (Some 20) [JInt 1, JInt 2]" and ?hits1.0 = "[JInt 1, JInt 2]"
      and ?v2.0 = "?w [ok_response None [JInt 3]] [False]"
      and sb = "\<lparr>world = ?w [ok_response None [JInt 3]] [],
                trace = [DuprPost (history_path ''7'') (page_data 20 0),
                         HandlePaging (page (Some 20) [JInt 1, JInt 2]),
                         Log (LogGotMatches (length [JInt 1, JInt 2])), Sleep 1]\<rparr>"
      and ?r2.0 = "\<lparr>status_code = 200, json = Inr (page None [JInt 3])\<rparr>"
      and ?v3.0 = "?w [] []" and ?d2.0 = "page None [JInt 3]" and ?hits2.0 = "[JInt 3]"
      and ?v4.0 = "?w [] []", THEN conjunct2]
    by (simp add: sim_env_def sim_post_def sim_poll_def is_set_def sim_start_def ok_response_def
        page_def)
  have empty: "paging_loop ?E ''7'' 20 (Some 40) [JInt 1] 2
       \<lparr>world = ?w [ok_response (Some 60) []] [False], trace = []\<rparr>
     = Some ([JInt 1],
           \<lparr>world = ?w [] [],
            trace = [DuprPost (history_path ''7'') (page_data 20 40),
                     HandlePaging (page (Some 60) []), Log LogNoMoreMatches]\<rparr>)"
    using two ok_pages_accumulate [where E = ?E and pid = "''7''" and mpp = 20
      and rc = 2 and off = 40 and ml = "[JInt 1]"
      and s = "\<lparr>world = ?w [ok_response (Some 60) []] [False], trace = []\<rparr>"
      and ?s1.0 = "\<lparr>world = ?w [ok_response (Some 60) []] [], trace = []\<rparr>"
      and r = "\<lparr>status_code = 200, json = Inr (page (Some 60) [])\<rparr>"
      and ?w1.0 = "?w [] []" and d = "page (Some 60) []" and off' = "Some 60" and hits = "[]"
      and ?w2.0 = "?w [] []", THEN conjunct1]
    by (simp add: sim_env_def sim_post_def sim_poll_def is_set_def ok_response_def page_def)
  have last: "paging_loop ?E ''7'' 20 (Some 40) [JInt 1] 2
       \<lparr>world = ?w [ok_response None [JInt 9]] [False], trace = []\<rparr>
     = Some ([JInt 1, JInt 9],
           \<lparr>world = ?w [] [],
            trace = [DuprPost (history_path ''7'') (page_data 20 40),
                     HandlePaging (page None [JInt 9]), Log (LogGotMatches 1), Sleep 1]\<rparr>)"
    using two ok_pages_accumulate [where E = ?E and pid = "''7''" and mpp = 20
      and rc = 2 and off = 40 and ml = "[JInt 1]"
      and s = "\<lparr>world = ?w [ok_response None [JInt 9]] [False], trace = []\<rparr>"
      and ?s1.0 = "\<lparr>world = ?w [ok_response None [JInt 9]] [], trace = []\<rparr>"
      and r = "\<lparr>status_code = 200, json = Inr (page None [JInt 9])\<rparr>"
      and ?w1.0 = "?w [] []" and d = "page None [JInt 9]" and off' = None and hits = "[JInt 9]"
      and ?w2.0 = "?w [] []", THEN conjunct1]
    by (simp add: sim_env_def sim_post_def sim_poll_def is_set_def ok_response_def page_def
        paging_loop_None)
  from scenario empty last show ?thesis by (intro conjI)
qed

section \<open>What leaves the pipeline\<close>

text \<open>
  Claim C1: given the answer of the roster call, the run raises its fatal error exactly
  when the answer's status is false. With a true status, whatever the detail lookups,
  the posts, the reauthentications and the cancellation flag do, the only thing the run
  can raise is the \<^verbatim>\<open>KeyError\<close> of line 113 on a roster record without an id. With
  readable ids the run is the history loop followed by the assembly: it returns exactly
  when the history loop does, and the result holds the truncated roster, the profiles
  that enrichment collected (at most one per member, in roster order) and the history
  that the loop collected. When the endpoint runs out of pages the history loop ends,
  so the run returns that result; its history has keys among the player ids and no
  empty entry.
\<close>

theorem fatal_error_iff_roster_failure:
  assumes roster: "get_members_by_club E club_id (world s) = (Inr (status, roster), w1)"
    and ms: "ms = slice_upto roster (or_zero max_members)"
    and en: "enrich E (length ms) 0 ms []
               (log LogFetchingProfiles
                 \<lparr>world = w1, trace = trace s @ [Log (LogStart club_id), Log LogFetchingMembers,
                                                  GetMembersByClub club_id]\<rparr>) = (profiles, s3)"
  shows "(raised (get_club_data E club_id max_members max_matches matches_per_player s)
            = Some MembersUnavailable \<longleftrightarrow> \<not> status)
       \<and> (status \<longrightarrow>
          raised (get_club_data E club_id max_members max_matches matches_per_player s)
            = (case player_ids_of E (slice_upto ms (or_zero max_matches)) of
                 Inl e \<Rightarrow> Some e
               | Inr ids \<Rightarrow> None))
       \<and> (status \<and> player_ids_of E (slice_upto ms (or_zero max_matches)) = Inr ids \<longrightarrow>
          get_club_data E club_id max_members max_matches matches_per_player s
            = (case history_loop E matches_per_player (length ids) 0 ids []
                      (log LogFetchingHistory s3) of
                 None \<Rightarrow> None
               | Some (mh, s4) \<Rightarrow>
                   Some (Inr \<lparr>club_info = make_club_info club_id ms mh, members = ms,
                              player_profiles = profiles, match_history = mh\<rparr>, s4))
          \<and> length profiles \<le> length ms
          \<and> subseq (map (\<lambda>p. dict_get p ''id'') profiles)
                (map (\<lambda>m. JStr (py_str E (dict_get m ''id''))) ms))
       \<and> (status \<and> player_ids_of E (slice_upto ms (or_zero max_matches)) = Inr ids \<and>
          pages_run_out E left \<longrightarrow>
          (\<exists>mh s4.
             history_loop E matches_per_player (length ids) 0 ids [] (log LogFetchingHistory s3)
               = Some (mh, s4)
             \<and> get_club_data E club_id max_members max_matches matches_per_player s
               = Some (Inr \<lparr>club_info = make_club_info club_id ms mh, members = ms,
                            player_profiles = profiles, match_history = mh\<rparr>, s4)
             \<and> fst ` set mh \<subseteq> set ids
             \<and> (\<forall>kv \<in> set mh. snd kv \<noteq> [])))"
proof (cases status)
  case False
  with get_club_data_failed [of E club_id s roster w1] roster show ?thesis by simp
next
  case True
  let ?run = "get_club_data E club_id max_members max_matches matches_per_player s"
  from True roster
  have roster': "get_members_by_club E club_id (world s) = (Inr (True, roster), w1)"
    by simp
  note run = get_club_data_fetched [OF roster' ms en, of max_matches matches_per_player]
  from enrich_length [OF en] have le: "length profiles \<le> length ms" by simp
  from enrich_ids_subseq [OF en]
  have sub: "subseq (map (\<lambda>p. dict_get p ''id'') profiles)
                (map (\<lambda>m. JStr (py_str E (dict_get m ''id''))) ms)"
    by simp
  have a: "raised ?run = (case player_ids_of E (slice_upto ms (or_zero max_matches)) of
                 Inl e \<Rightarrow> Some e
               | Inr ids \<Rightarrow> None)"
    unfolding run by (auto split: sum.splits option.splits)
  have a': "raised ?run \<noteq> Some MembersUnavailable"
    unfolding a using player_ids_of_error [of E "slice_upto ms (or_zero max_matches)"]
    by (auto split: sum.splits)
  have b: "?run = (case history_loop E matches_per_player (length ids) 0 ids []
                      (log LogFetchingHistory s3) of
                 None \<Rightarrow> None
               | Some (mh, s4) \<Rightarrow>
                   Some (Inr \<lparr>club_info = make_club_info club_id ms mh, members = ms,
                              player_profiles = profiles, match_history = mh\<rparr>, s4))"
    if "player_ids_of E (slice_upto ms (or_zero max_matches)) = Inr ids"
    unfolding run using that by simp
  have c: "\<exists>mh s4.
             history_loop E matches_per_player (length ids) 0 ids [] (log LogFetchingHistory s3)
               = Some (mh, s4)
             \<and> ?run = Some (Inr \<lparr>club_info = make_club_info club_id ms mh, members = ms,
                            player_profiles = profiles, match_history = mh\<rparr>, s4)
             \<and> fst ` set mh \<subseteq> set ids
             \<and> (\<forall>kv \<in> set mh. snd kv \<noteq> [])"
    if i: "player_ids_of E (slice_upto ms (or_zero max_matches)) = Inr ids"
      and lp: "pages_run_out E left"
  proof -
    from history_loop_terminates [OF lp, of matches_per_player "length ids" 0 ids "[]"
        "log LogFetchingHistory s3"]
    obtain mh s4 where h: "history_loop E matches_per_player (length ids) 0 ids []
        (log LogFetchingHistory s3) = Some (mh, s4)" by auto
    from history_loop_keys [OF h] have k: "fst ` set mh \<subseteq> set ids" by simp
    from history_loop_entries [OF h] have n: "\<forall>kv \<in> set mh. snd kv \<noteq> []" by simp
    from b [OF i] h have "?run = Some (Inr \<lparr>club_info = make_club_info club_id ms mh, members = ms,
                            player_profiles = profiles, match_history = mh\<rparr>, s4)"
      by simp
    with h k n show ?thesis by blast
  qed
  from True a a' b c le sub show ?thesis by simp
qed


theorem fatal_error_iff_roster_failure_witness:
  "raised (get_club_data (sim_env False [member_of ''1'']) ''c'' 20 5 10 (sim_start [] [] []))
     = Some MembersUnavailable
   \<and> returned (get_club_data (sim_env True [member_of ''1'', member_of ''2'', member_of ''3''])
        ''c'' 20 5 10
        (sim_start [Inl (ClientExn ''timeout'')]
           [status_response 403, ok_response (Some 20) [JInt 1], ok_response None [JInt 2],
            Inl (ClientExn ''reset''), status_response 200, Inl (ClientExn ''reset'')]
           [False, False, False, False, False, False, False, False, False, False, False, True]))
     = Some \<lparr>club_info = [(''id'', JStr ''c''), (''name'', JStr ''club''),
                           (''total_members'', JInt 3), (''scraped_matches'', JInt 2)],
             members = [member_of ''1'', member_of ''2'', member_of ''3''],
             player_profiles = [baseline_profile ''2'' (member_of ''2''),
                                baseline_profile ''3'' (member_of ''3'')],
             match_history = [(''1'', [JInt 1, JInt 2])]\<rparr>
   \<and> returned (get_club_data (sim_paged True [member_of ''1'']) ''c'' 20 5 10 (sim_start [] [] []))
     = Some \<lparr>club_info = [(''id'', JStr ''c''), (''name'', JStr ''club''),
                           (''total_members'', JInt 1), (''scraped_matches'', JInt 2)],
             members = [member_of ''1''],
             player_profiles = [baseline_profile ''1'' (member_of ''1'')],
             match_history = [(''1'', [JStr ''first'', JStr ''second''])]\<rparr>"
proof -
  have failed: "raised (get_club_data (sim_env False [member_of ''1'']) ''c'' 20 5 10
      (sim_start [] [] [])) = Some MembersUnavailable"
  proof -
    let ?E = "sim_env False [member_of ''1'']"
    let ?start = "sim_start [] [] []"
    let ?before = "log LogFetchingProfiles
        \<lparr>world = world ?start, trace = trace ?start @ [Log (LogStart ''c''), Log LogFetchingMembers,
                                                  GetMembersByClub ''c'']\<rparr>"
    let ?en = "enrich ?E (length [member_of ''1'']) 0 [member_of ''1''] [] ?before"
    have roster: "get_members_by_club ?E ''c'' (world ?start)
        = (Inr (False, [member_of ''1'']), world ?start)"
      by (simp add: sim_env_def)
    have ms: "[member_of ''1''] = slice_upto [member_of ''1''] (or_zero 20)"
      by (simp add: slice_upto_def or_zero_def)
    have en: "?en = (fst ?en, snd ?en)" by simp
    from fatal_error_iff_roster_failure [OF roster ms en, where max_matches = 5
        and matches_per_player = 10]
    show ?thesis by simp
  qed
  have mixed: "returned (get_club_data (sim_env True [member_of ''1'', member_of ''2'', member_of ''3''])
        ''c'' 20 5 10
        (sim_start [Inl (ClientExn ''timeout'')]
           [status_response 403, ok_response (Some 20) [JInt 1], ok_response None [JInt 2],
            Inl (ClientExn ''reset''), status_response 200, Inl (ClientExn ''reset'')]
           [False, False, False, False, False, False, False, False, False, False, False, True]))
     = Some \<lparr>club_info = [(''id'', JStr ''c''), (''name'', JStr ''club''),
                           (''total_members'', JInt 3), (''scraped_matches'', JInt 2)],
             members = [member_of ''1'', member_of ''2'', member_of ''3''],
             player_profiles = [baseline_profile ''2'' (member_of ''2''),
                                baseline_profile ''3'' (member_of ''3'')],
             match_history = [(''1'', [JInt 1, JInt 2])]\<rparr>"
  proof -
    let ?ms = "[member_of ''1'', member_of ''2'', member_of ''3'']"
    let ?E = "sim_env True ?ms"
    let ?start = "sim_start [Inl (ClientExn ''timeout'')]
           [status_response 403, ok_response (Some 20) [JInt 1], ok_response None [JInt 2],
            Inl (ClientExn ''reset''), status_response 200, Inl (ClientExn ''reset'')]
           [False, False, False, False, False, False, False, False, False, False, False, True]"
    let ?before = "log LogFetchingProfiles
        \<lparr>world = world ?start, trace = trace ?start @ [Log (LogStart ''c''), Log LogFetchingMembers,
                                                  GetMembersByClub ''c'']\<rparr>"
    let ?en = "enrich ?E (length ?ms) 0 ?ms [] ?before"
    let ?hist = "history_loop ?E 10 (length [''1'', ''2'', ''3'']) 0 [''1'', ''2'', ''3''] []
        (log LogFetchingHistory (snd ?en))"
    have roster: "get_members_by_club ?E ''c'' (world ?start) = (Inr (True, ?ms), world ?start)"
      by (simp add: sim_env_def)
    have ms: "?ms = slice_upto ?ms (or_zero 20)"
      by (simp add: slice_upto_def or_zero_def)
    have en: "?en = (fst ?en, snd ?en)" by simp
    have ids: "player_ids_of ?E (slice_upto ?ms (or_zero 5)) = Inr [''1'', ''2'', ''3'']"
      by code_simp
    have profiles: "fst ?en = [baseline_profile ''2'' (member_of ''2''),
                               baseline_profile ''3'' (member_of ''3'')]"
      by code_simp
    have history: "map_option fst ?hist = Some [(''1'', [JInt 1, JInt 2])]"
      by code_simp
    note t = fatal_error_iff_roster_failure [OF roster ms en, where max_matches = 5
        and matches_per_player = 10 and ids = "[''1'', ''2'', ''3'']"
        and left = "\<lambda>w path off. length (sim_posts w)"]
    from t ids pages_run_out_sim_env [of True ?ms] obtain mh s4 where
      h: "?hist = Some (mh, s4)"
      and r: "get_club_data ?E ''c'' 20 5 10 ?start
        = Some (Inr \<lparr>club_info = make_club_info ''c'' ?ms mh, members = ?ms,
                      player_profiles = fst ?en, match_history = mh\<rparr>, s4)"
      by blast
    from h history have "mh = [(''1'', [JInt 1, JInt 2])]" by simp
    with r profiles show ?thesis
      by (simp add: make_club_info_def member_of_def dict_get_def)
  qed
  have paged: "returned (get_club_data (sim_paged True [member_of ''1'']) ''c'' 20 5 10
        (sim_start [] [] []))
     = Some \<lparr>club_info = [(''id'', JStr ''c''), (''name'', JStr ''club''),
                           (''total_members'', JInt 1), (''scraped_matches'', JInt 2)],
             members = [member_of ''1''],
             player_profiles = [baseline_profile ''1'' (member_of ''1'')],
             match_history = [(''1'', [JStr ''first'', JStr ''second''])]\<rparr>"
  proof -
    let ?ms = "[member_of ''1'']"
    let ?E = "sim_paged True ?ms"
    let ?start = "sim_start [] [] []"
    let ?before = "log LogFetchingProfiles
        \<lparr>world = world ?start, trace = trace ?start @ [Log (LogStart ''c''), Log LogFetchingMembers,
                                                  GetMembersByClub ''c'']\<rparr>"
    let ?en = "enrich ?E (length ?ms) 0 ?ms [] ?before"
    let ?hist = "history_loop ?E 10 (length [''1'']) 0 [''1''] []
        (log LogFetchingHistory (snd ?en))"
    have roster: "get_members_by_club ?E ''c'' (world ?start) = (Inr (True, ?ms), world ?start)"
      by (simp add: sim_paged_def sim_env_def)
    have ms: "?ms = slice_upto ?ms (or_zero 20)"
      by (simp add: slice_upto_def or_zero_def)
    have en: "?en = (fst ?en, snd ?en)" by simp
    have ids: "player_ids_of ?E (slice_upto ?ms (or_zero 5)) = Inr [''1'']"
      by code_simp
    have profiles: "fst ?en = [baseline_profile ''1'' (member_of ''1'')]"
      by code_simp
    have history: "map_option fst ?hist = Some [(''1'', [JStr ''first'', JStr ''second''])]"
      by code_simp
    note t = fatal_error_iff_roster_failure [OF roster ms en, where max_matches = 5
        and matches_per_player = 10 and ids = "[''1'']"
        and left = "\<lambda>w path off. if off = 0 then 1 else 0"]
    from t ids pages_run_out_sim_paged [of True ?ms] obtain mh s4 where
      h: "?hist = Some (mh, s4)"
      and r: "get_club_data ?E ''c'' 20 5 10 ?start
        = Some (Inr \<lparr>club_info = make_club_info ''c'' ?ms mh, members = ?ms,
                      player_profiles = fst ?en, match_history = mh\<rparr>, s4)"
      by blast
    from h history have "mh = [(''1'', [JStr ''first'', JStr ''second''])]" by simp
    with r profiles show ?thesis
      by (simp add: make_club_info_def member_of_def dict_get_def)
  qed
  from failed mixed paged show ?thesis by (intro conjI)
qed

section \<open>Cancellation\<close>

text \<open>
  Claim C7: when the first \<open>i\<close> of the enumerated members have been enriched (each left
  a profile) and the flag is found set at the next poll, the profiles of the run are
  exactly these \<open>i\<close>, in roster order; with \<open>i = 0\<close> there are none. If the flag is
  still set at the first poll of the history stage, the run returns that result and
  raises nothing.
\<close>

theorem cancel_after_enriched:
  assumes roster: "get_members_by_club E club_id (world s) = (Inr (True, roster), w1)"
    and ms: "slice_upto roster (or_zero max_members) = enriched @ pending"
    and pending: "pending \<noteq> []"
    and en: "enrich E (length (enriched @ pending)) 0 enriched []
               (log LogFetchingProfiles
                 \<lparr>world = w1, trace = trace s @ [Log (LogStart club_id), Log LogFetchingMembers,
                                                  GetMembersByClub club_id]\<rparr>) = (profiles, s2)"
    and all: "length profiles = length enriched"
    and cancel: "is_set E s2 = (True, s3)"
  shows "map (\<lambda>p. dict_get p ''id'') profiles
           = map (\<lambda>m. JStr (py_str E (dict_get m ''id''))) enriched
       \<and> (\<forall>r. returned (get_club_data E club_id max_members max_matches matches_per_player s) = Some r
              \<longrightarrow> player_profiles r = profiles)
       \<and> (player_ids_of E (slice_upto (enriched @ pending) (or_zero max_matches)) = Inr ids \<and>
          (ids \<noteq> [] \<longrightarrow> fst (is_set E (log LogFetchingHistory (log LogProfilesStopped s3)))) \<longrightarrow>
          returned (get_club_data E club_id max_members max_matches matches_per_player s)
            = Some \<lparr>club_info = make_club_info club_id (enriched @ pending) [],
                    members = enriched @ pending,
                    player_profiles = profiles,
                    match_history = []\<rparr>)"
proof -
  let ?run = "get_club_data E club_id max_members max_matches matches_per_player s"
  let ?before = "log LogFetchingProfiles
                 \<lparr>world = w1, trace = trace s @ [Log (LogStart club_id), Log LogFetchingMembers,
                                                  GetMembersByClub club_id]\<rparr>"
  let ?n = "length (enriched @ pending)"
  let ?stopped = "log LogProfilesStopped s3"
  from all have l: "length profiles = length ([]::obj list) + length enriched" by simp
  from enrich_all [OF en l, of pending]
  have ids: "map (\<lambda>p. dict_get p ''id'') profiles
           = map (\<lambda>m. JStr (py_str E (dict_get m ''id''))) enriched"
    and app: "enrich E ?n 0 (enriched @ pending) [] ?before = enrich E ?n (0 + length enriched) pending profiles s2"
    by auto
  from pending obtain m rest where pd: "pending = m # rest" by (cases pending) auto
  have "enrich E ?n (0 + length enriched) pending profiles s2 = (profiles, ?stopped)"
    unfolding pd using cancel by simp
  with app have whole: "enrich E ?n 0 (enriched @ pending) [] ?before = (profiles, ?stopped)" by simp
  note run = get_club_data_fetched [OF roster ms [symmetric] whole, of max_matches matches_per_player]
  have a: "\<forall>r. returned ?run = Some r \<longrightarrow> player_profiles r = profiles"
    unfolding run by (auto split: sum.splits option.splits)
  have b: "returned ?run = Some \<lparr>club_info = make_club_info club_id (enriched @ pending) [],
                    members = enriched @ pending,
                    player_profiles = profiles,
                    match_history = []\<rparr>"
    if i: "player_ids_of E (slice_upto (enriched @ pending) (or_zero max_matches)) = Inr ids"
      and st: "ids \<noteq> [] \<longrightarrow> fst (is_set E (log LogFetchingHistory ?stopped))"
  proof (cases ids)
    case Nil
    with run i show ?thesis by simp
  next
    case (Cons pid more)
    with st obtain s5 where "is_set E (log LogFetchingHistory ?stopped) = (True, s5)"
      by (cases "is_set E (log LogFetchingHistory ?stopped)") auto
    with run i Cons show ?thesis by simp
  qed
  from ids a b show ?thesis by blast
qed

theorem cancel_after_enriched_witness:
  "returned (get_club_data (sim_env True [member_of ''1'', member_of ''2'', member_of ''3''])
       ''c'' 20 5 10 (sim_start [] [] [False, True, True]))
   = Some \<lparr>club_info = [(''id'', JStr ''c''), (''name'', JStr ''club''),
                         (''total_members'', JInt 3), (''scraped_matches'', JInt 0)],
           members = [member_of ''1'', member_of ''2'', member_of ''3''],
           player_profiles = [baseline_profile ''1'' (member_of ''1'')],
           match_history = []\<rparr>
   \<and> returned (get_club_data (sim_env True [member_of ''1'', member_of ''2''])
       ''c'' 20 5 10 (sim_start [] [] [True, True]))
   = Some \<lparr>club_info = [(''id'', JStr ''c''), (''name'', JStr ''club''),
                         (''total_members'', JInt 2), (''scraped_matches'', JInt 0)],
           members = [member_of ''1'', member_of ''2''],
           player_profiles = [],
           match_history = []\<rparr>"
proof -
  have one: "returned (get_club_data (sim_env True [member_of ''1'', member_of ''2'', member_of ''3''])
       ''c'' 20 5 10 (sim_start [] [] [False, True, True]))
   = Some \<lparr>club_info = [(''id'', JStr ''c''), (''name'', JStr ''club''),
                         (''total_members'', JInt 3), (''scraped_matches'', JInt 0)],
           members = [member_of ''1'', member_of ''2'', member_of ''3''],
           player_profiles = [baseline_profile ''1'' (member_of ''1'')],
           match_history = []\<rparr>"
  proof -
    let ?E = "sim_env True [member_of ''1'', member_of ''2'', member_of ''3'']"
    let ?start = "sim_start [] [] [False, True, True]"
    let ?before = "log LogFetchingProfiles
                 \<lparr>world = world ?start, trace = trace ?start @ [Log (LogStart ''c''), Log LogFetchingMembers,
                                                        GetMembersByClub ''c'']\<rparr>"
    let ?en = "enrich ?E (length ([member_of ''1''] @ [member_of ''2'', member_of ''3''])) 0
                 [member_of ''1''] [] ?before"
    have roster: "get_members_by_club ?E ''c'' (world ?start)
        = (Inr (True, [member_of ''1'', member_of ''2'', member_of ''3'']), world ?start)"
      by (simp add: sim_env_def)
    have ms: "slice_upto [member_of ''1'', member_of ''2'', member_of ''3''] (or_zero 20)
        = [member_of ''1''] @ [member_of ''2'', member_of ''3'']"
      by (simp add: slice_upto_def or_zero_def)
    have pending: "[member_of ''2'', member_of ''3''] \<noteq> []" by simp
    have en: "?en = (fst ?en, snd ?en)" by simp
    have profiles: "fst ?en = [baseline_profile ''1'' (member_of ''1'')]" by code_simp
    then have all: "length (fst ?en) = length [member_of ''1'']" by simp
    have c: "fst (is_set ?E (snd ?en)) = True" by code_simp
    then have cancel: "is_set ?E (snd ?en) = (True, snd (is_set ?E (snd ?en)))"
      by (cases "is_set ?E (snd ?en)") simp
    have ids: "player_ids_of ?E (slice_upto ([member_of ''1''] @ [member_of ''2'', member_of ''3''])
        (or_zero 5)) = Inr [''1'', ''2'', ''3'']"
      by code_simp
    have still: "fst (is_set ?E (log LogFetchingHistory (log LogProfilesStopped
        (snd (is_set ?E (snd ?en))))))"
      by code_simp
    from cancel_after_enriched [OF roster ms pending en all cancel,
        where max_matches = 5 and ids = "[''1'', ''2'', ''3'']" and matches_per_player = 10]
      ids still profiles
    show ?thesis
      by (simp add: make_club_info_def member_of_def dict_get_def)
  qed
  have none: "returned (get_club_data (sim_env True [member_of ''1'', member_of ''2''])
       ''c'' 20 5 10 (sim_start [] [] [True, True]))
   = Some \<lparr>club_info = [(''id'', JStr ''c''), (''name'', JStr ''club''),
                         (''total_members'', JInt 2), (''scraped_matches'', JInt 0)],
           members = [member_of ''1'', member_of ''2''],
           player_profiles = [],
           match_history = []\<rparr>"
  proof -
    let ?E = "sim_env True [member_of ''1'', member_of ''2'']"
    let ?start = "sim_start [] [] [True, True]"
    let ?before = "log LogFetchingProfiles
                 \<lparr>world = world ?start, trace = trace ?start @ [Log (LogStart ''c''), Log LogFetchingMembers,
                                                        GetMembersByClub ''c'']\<rparr>"
    have roster: "get_members_by_club ?E ''c'' (world ?start)
        = (Inr (True, [member_of ''1'', member_of ''2'']), world ?start)"
      by (simp add: sim_env_def)
    have ms: "slice_upto [member_of ''1'', member_of ''2''] (or_zero 20)
        = [] @ [member_of ''1'', member_of ''2'']"
      by (simp add: slice_upto_def or_zero_def)
    have pending: "[member_of ''1'', member_of ''2''] \<noteq> []" by simp
    have en: "enrich ?E (length ([] @ [member_of ''1'', member_of ''2''])) 0 [] [] ?before = ([], ?before)"
      by simp
    have all: "length ([]::obj list) = length ([]::obj list)" by simp
    have c: "fst (is_set ?E ?before) = True" by code_simp
    then have cancel: "is_set ?E ?before = (True, snd (is_set ?E ?before))"
      by (cases "is_set ?E ?before") simp
    have ids: "player_ids_of ?E (slice_upto ([] @ [member_of ''1'', member_of ''2''])
        (or_zero 5)) = Inr [''1'', ''2'']"
      by code_simp
    have still: "fst (is_set ?E (log LogFetchingHistory (log LogProfilesStopped
        (snd (is_set ?E ?before)))))"
      by code_simp
    from cancel_after_enriched [OF roster ms pending en all cancel,
        where max_matches = 5 and ids = "[''1'', ''2'']" and matches_per_player = 10]
      ids still
    show ?thesis
      by (simp add: make_club_info_def member_of_def dict_get_def)
  qed
  from one none show ?thesis by (rule conjI)
qed

section \<open>The assembled result\<close>

text \<open>
  Claim C8, as stated: \<open>club_info\<close> carries the count of players with history. It does
  not: two runs with one and with two players with history return the same
  \<open>club_info\<close>, whose keys are \<^verbatim>\<open>id\<close>, \<^verbatim>\<open>name\<close>, \<^verbatim>\<open>total_members\<close> and
  \<^verbatim>\<open>scraped_matches\<close>.
\<close>

theorem club_info_omits_players_with_history:
  "map_option club_info (returned (get_club_data (sim_free True [member_of ''1'', member_of ''2''])
       ''c'' 2 2 10
       (sim_start [] [ok_response None [JInt 1, JInt 2], status_response 500] [])))
   = map_option club_info (returned (get_club_data (sim_free True [member_of ''1'', member_of ''2''])
       ''c'' 2 2 10
       (sim_start [] [ok_response None [JInt 1], ok_response None [JInt 2]] [])))
   \<and> map_option (length \<circ> match_history)
       (returned (get_club_data (sim_free True [member_of ''1'', member_of ''2'']) ''c'' 2 2 10
         (sim_start [] [ok_response None [JInt 1, JInt 2], status_response 500] []))) = Some 1
   \<and> map_option (length \<circ> match_history)
       (returned (get_club_data (sim_free True [member_of ''1'', member_of ''2'']) ''c'' 2 2 10
         (sim_start [] [ok_response None [JInt 1], ok_response None [JInt 2]] []))) = Some 2
   \<and> map_option (map fst \<circ> club_info)
       (returned (get_club_data (sim_free True [member_of ''1'', member_of ''2'']) ''c'' 2 2 10
         (sim_start [] [ok_response None [JInt 1, JInt 2], status_response 500] [])))
       = Some [''id'', ''name'', ''total_members'', ''scraped_matches'']"
  by code_simp

text \<open>
  Claim C8, amended: \<open>club_info\<close> of a returned result holds the club id, the club name
  of the first member (the empty string without members), the number of members and the
  number of matches in the history; the players with history are the keys of
  \<open>match_history\<close>, each once.
\<close>

theorem club_info_fields:
  assumes "returned (get_club_data E club_id max_members max_matches matches_per_player s) = Some r"
  shows "club_info r =
           [(''id'', JStr club_id),
            (''name'', (case members r of [] \<Rightarrow> JStr [] | m # rest \<Rightarrow> dict_get m ''clubName'')),
            (''total_members'', JInt (int (length (members r)))),
            (''scraped_matches'',
               JInt (int (sum_list (map (\<lambda>kv. length (snd kv)) (match_history r)))))]
         \<and> distinct (map fst (match_history r))"
proof -
  from assms obtain s' where
    "get_club_data E club_id max_members max_matches matches_per_player s = Some (Inr r, s')"
    by (auto simp: returned_Some)
  from get_club_data_returned [OF this] obtain n ids s3 where
    h: "history_loop E matches_per_player n 0 ids [] s3 = Some (match_history r, s')"
    and c: "club_info r = make_club_info club_id (members r) (match_history r)" by blast
  from history_loop_distinct [OF h] c show ?thesis
    by (simp add: make_club_info_def)
qed

theorem club_info_fields_witness:
  "club_info (the (returned (get_club_data (sim_free True [member_of ''1'', member_of ''2''])
       ''c'' 2 2 10
       (sim_start [] [ok_response None [JInt 1, JInt 2], status_response 500] []))))
   = [(''id'', JStr ''c''), (''name'', JStr ''club''), (''total_members'', JInt 2),
      (''scraped_matches'', JInt 2)]"
proof -
  let ?run = "get_club_data (sim_free True [member_of ''1'', member_of ''2'']) ''c'' 2 2 10
       (sim_start [] [ok_response None [JInt 1, JInt 2], status_response 500] [])"
  have m: "map_option members (returned ?run) = Some [member_of ''1'', member_of ''2'']"
    by code_simp
  have h: "map_option match_history (returned ?run) = Some [(''1'', [JInt 1, JInt 2])]"
    by code_simp
  from m obtain r where r: "returned ?run = Some r" by auto
  from club_info_fields [OF r] r m h show ?thesis
    by (simp add: member_of_def dict_get_def)
qed

section \<open>Rate limiting during enrichment\<close>

text \<open>
  Claim C9: during profile enrichment a fixed delay follows every per-member attempt,
  also one that fails with an exception. The \<^verbatim>\<open>sleep(1)\<close> of line 106 is the last
  statement inside the \<^verbatim>\<open>try\<close> block, so an exception of the detail lookup skips it and
  the handler of lines 107 to 108 only logs. With three members whose lookups all raise,
  the three lookups follow each other with no delay at all and no profile is collected;
  when the first lookup answers and the second raises there is one delay for two
  attempts. The handler of the paging loop in the same function (lines 163 to 167) does
  sleep after an exception: three raising requests are each followed by a delay.
\<close>

theorem enrich_no_delay_after_exception:
  "lookups (trace (snd (enrich (sim_env True []) 3 0
       [member_of ''1'', member_of ''2'', member_of ''3''] []
       (sim_start [Inl (ClientExn ''timeout''), Inl (ClientExn ''timeout''),
                   Inl (ClientExn ''timeout'')] [] []))))
     = [''1'', ''2'', ''3'']
   \<and> sleeps (trace (snd (enrich (sim_env True []) 3 0
       [member_of ''1'', member_of ''2'', member_of ''3''] []
       (sim_start [Inl (ClientExn ''timeout''), Inl (ClientExn ''timeout''),
                   Inl (ClientExn ''timeout'')] [] []))))
     = []
   \<and> fst (enrich (sim_env True []) 3 0
       [member_of ''1'', member_of ''2'', member_of ''3''] []
       (sim_start [Inl (ClientExn ''timeout''), Inl (ClientExn ''timeout''),
                   Inl (ClientExn ''timeout'')] [] []))
     = []
   \<and> lookups (trace (snd (enrich (sim_env True []) 2 0 [member_of ''1'', member_of ''2''] []
       (sim_start [Inr (False, JNull), Inl (ClientExn ''timeout'')] [] []))))
     = [''1'', ''2'']
   \<and> sleeps (trace (snd (enrich (sim_env True []) 2 0 [member_of ''1'', member_of ''2''] []
       (sim_start [Inr (False, JNull), Inl (ClientExn ''timeout'')] [] []))))
     = [1]
   \<and> map_option (sleeps \<circ> trace \<circ> snd)
       (paging_loop (sim_down True []) ''1'' 10 (Some 0) [] 0 (sim_start [] [] []))
     = Some [2, 2, 2]"
  by code_simp

end
